theory Spec2Isabelle
  imports Complex_Main "HOL-Library.Log_Nat"
begin

section \<open>Numbers\<close>

text \<open>
  The program computes on IEEE 754 binary64 values (Python floats, numpy float64). A
  value is \<open>NaN\<close>, an infinity, or a finite real; the result of an arithmetic
  operation on finite values is the exact result rounded to the nearest double, ties to
  the even significand, and an infinity when that rounding reaches \<open>2 ^ 1024\<close>. An
  operation with a \<open>NaN\<close> operand yields \<open>NaN\<close> and a comparison with a \<open>NaN\<close>
  operand is false. The two zeros are not distinguished: they compare equal and the
  program never divides by one.
\<close>

datatype pyfloat = NaN | NInf | Fin real | PInf

text \<open>The binary exponent of a positive real: \<open>2 ^ ilog2 x \<le> x < 2 ^ (ilog2 x + 1)\<close>.\<close>

definition ilog2 :: "real \<Rightarrow> int" where
  "ilog2 x = (if 1 \<le> x then bitlen \<lfloor>x\<rfloor> - 1 else - bitlen (\<lceil>1 / x\<rceil> - 1))"

definition round_half_even :: "real \<Rightarrow> int" where
  "round_half_even q =
     (let f = \<lfloor>q\<rfloor>; d = q - of_int f
      in if d < 1 / 2 then f else if 1 / 2 < d then f + 1 else if even f then f else f + 1)"

definition dbl_overflow :: real where "dbl_overflow = 2 ^ 1024"
definition dbl_min_normal :: real where "dbl_min_normal = 1 / 2 ^ 1022"
definition dbl_eps :: real where "dbl_eps = 1 / 2 ^ 53"

text \<open>Rounding to binary64: the spacing of the doubles around \<open>x\<close> is
  \<open>2 ^ (ilog2 |x| - 52)\<close>, and \<open>2 ^ -1074\<close> in the subnormal range.\<close>

definition round_double :: "real \<Rightarrow> pyfloat" where
  "round_double x =
     (if x = 0 then Fin 0
      else
        let u = 2 powi (max (- 1074) (ilog2 \<bar>x\<bar> - 52));
            v = of_int (round_half_even (x / u)) * u
        in if dbl_overflow \<le> v then PInf else if v \<le> - dbl_overflow then NInf else Fin v)"

fun fadd :: "pyfloat \<Rightarrow> pyfloat \<Rightarrow> pyfloat" where
  "fadd (Fin a) (Fin b) = round_double (a + b)"
| "fadd NaN _ = NaN"
| "fadd _ NaN = NaN"
| "fadd PInf NInf = NaN"
| "fadd NInf PInf = NaN"
| "fadd PInf _ = PInf"
| "fadd _ PInf = PInf"
| "fadd NInf _ = NInf"
| "fadd _ NInf = NInf"

fun fsub :: "pyfloat \<Rightarrow> pyfloat \<Rightarrow> pyfloat" where
  "fsub (Fin a) (Fin b) = round_double (a - b)"
| "fsub NaN _ = NaN"
| "fsub _ NaN = NaN"
| "fsub PInf PInf = NaN"
| "fsub NInf NInf = NaN"
| "fsub PInf _ = PInf"
| "fsub _ NInf = PInf"
| "fsub NInf _ = NInf"
| "fsub _ PInf = NInf"

text \<open>The sign of a value that is not \<open>NaN\<close>, for the products and quotients that
  involve an infinity.\<close>

fun fsign :: "pyfloat \<Rightarrow> int" where
  "fsign (Fin a) = (if a = 0 then 0 else if 0 < a then 1 else - 1)"
| "fsign PInf = 1"
| "fsign NInf = - 1"
| "fsign NaN = 0"

definition inf_of_sign :: "int \<Rightarrow> pyfloat" where
  "inf_of_sign s = (if s = 0 then NaN else if 0 < s then PInf else NInf)"

fun fmul :: "pyfloat \<Rightarrow> pyfloat \<Rightarrow> pyfloat" where
  "fmul (Fin a) (Fin b) = round_double (a * b)"
| "fmul NaN _ = NaN"
| "fmul _ NaN = NaN"
| "fmul a b = inf_of_sign (fsign a * fsign b)"

text \<open>Division: the program only divides by the literals 2 and 4. For a zero divisor
  the model takes the positive zero.\<close>

fun fdiv :: "pyfloat \<Rightarrow> pyfloat \<Rightarrow> pyfloat" where
  "fdiv (Fin a) (Fin b) = (if b = 0 then inf_of_sign (fsign (Fin a)) else round_double (a / b))"
| "fdiv NaN _ = NaN"
| "fdiv _ NaN = NaN"
| "fdiv (Fin a) _ = Fin 0"
| "fdiv a (Fin b) = inf_of_sign (fsign a * (if b < 0 then - 1 else 1))"
| "fdiv _ _ = NaN"

fun flt :: "pyfloat \<Rightarrow> pyfloat \<Rightarrow> bool" where
  "flt (Fin a) (Fin b) = (a < b)"
| "flt NaN _ = False"
| "flt _ NaN = False"
| "flt PInf _ = False"
| "flt _ NInf = False"
| "flt _ _ = True"

fun fle :: "pyfloat \<Rightarrow> pyfloat \<Rightarrow> bool" where
  "fle (Fin a) (Fin b) = (a \<le> b)"
| "fle NaN _ = False"
| "fle _ NaN = False"
| "fle NInf _ = True"
| "fle _ PInf = True"
| "fle _ _ = False"

fun fgt :: "pyfloat \<Rightarrow> pyfloat \<Rightarrow> bool" where
  "fgt (Fin a) (Fin b) = (a > b)"
| "fgt NaN _ = False"
| "fgt _ NaN = False"
| "fgt NInf _ = False"
| "fgt _ PInf = False"
| "fgt _ _ = True"

fun fge :: "pyfloat \<Rightarrow> pyfloat \<Rightarrow> bool" where
  "fge (Fin a) (Fin b) = (a \<ge> b)"
| "fge NaN _ = False"
| "fge _ NaN = False"
| "fge PInf _ = True"
| "fge _ NInf = True"
| "fge _ _ = False"

text \<open>Python's builtin \<open>max(a, b)\<close> keeps \<open>a\<close> unless \<open>b > a\<close>; \<open>min(a, b)\<close> keeps
  \<open>a\<close> unless \<open>b < a\<close>. With a \<open>NaN\<close> second argument the first one is returned.\<close>

definition py_max :: "pyfloat \<Rightarrow> pyfloat \<Rightarrow> pyfloat" where
  "py_max a b = (if fgt b a then b else a)"

definition py_min :: "pyfloat \<Rightarrow> pyfloat \<Rightarrow> pyfloat" where
  "py_min a b = (if flt b a then b else a)"

text \<open>pandas \<open>Series.min()\<close> and \<open>Series.max()\<close> skip \<open>NaN\<close> entries and return
  \<open>NaN\<close> when nothing is left.\<close>

definition drop_nan :: "pyfloat list \<Rightarrow> pyfloat list" where
  "drop_nan xs = filter (\<lambda>x. x \<noteq> NaN) xs"

definition pd_min :: "pyfloat list \<Rightarrow> pyfloat" where
  "pd_min xs =
     (case drop_nan xs of [] \<Rightarrow> NaN | v # vs \<Rightarrow> fold (\<lambda>x m. if flt x m then x else m) vs v)"

definition pd_max :: "pyfloat list \<Rightarrow> pyfloat" where
  "pd_max xs =
     (case drop_nan xs of [] \<Rightarrow> NaN | v # vs \<Rightarrow> fold (\<lambda>x m. if fgt x m then x else m) vs v)"

section \<open>Configuration\<close>

definition LIMIT :: nat where "LIMIT = 100"
definition TOP_N :: nat where "TOP_N = 25"
definition SL_LOOKBACK :: nat where "SL_LOOKBACK = 10"
definition RISK_REWARD :: real where "RISK_REWARD = 2"
definition KEY_VALUE :: real where "KEY_VALUE = 2"
definition ATR_PERIOD :: nat where "ATR_PERIOD = 10"

section \<open>Candles and the data frame\<close>

text \<open>One row of the data frame built from \<open>fetch_ohlcv\<close>; the frame is the list of its
  rows, oldest first, with the default index \<open>0, 1, ...\<close>.\<close>

record candle =
  timestamp :: int
  c_open :: pyfloat
  high :: pyfloat
  low :: pyfloat
  close :: pyfloat
  volume :: pyfloat

datatype error = IndexError | KeyError | LibraryError | NetworkError

datatype signal = LONG | SHORT

subsection \<open>Heikin Ashi columns\<close>

definition HA_Close :: "candle list \<Rightarrow> pyfloat list" where
  "HA_Close df =
     map (\<lambda>c. fdiv (fadd (fadd (fadd (c_open c) (high c)) (low c)) (close c)) (Fin 4)) df"

text \<open>The list \<open>ha_open\<close> starts with one element (reading row 0 fails on an empty frame)
  and the loop appends one element per index \<open>1 .. len(df) - 1\<close>.\<close>

definition HA_Open :: "candle list \<Rightarrow> error + pyfloat list" where
  "HA_Open df =
     (case df of
        [] \<Rightarrow> Inl IndexError
      | c0 # _ \<Rightarrow>
          Inr (fold (\<lambda>i ha_open.
                       ha_open @ [fdiv (fadd (ha_open ! (i - 1)) (HA_Close df ! (i - 1))) (Fin 2)])
                    [1..<length df]
                    [fdiv (fadd (c_open c0) (close c0)) (Fin 2)]))"

subsection \<open>Loss threshold\<close>

text \<open>\<open>atr\<close> is the series returned by the external call \<open>ta.atr\<close>. Assigning it to a
  column aligns it on the frame's index: a missing position reads \<open>NaN\<close>.\<close>

definition nLoss :: "pyfloat list \<Rightarrow> nat \<Rightarrow> pyfloat list" where
  "nLoss atr n =
     map (\<lambda>i. if i < length atr then fmul (Fin KEY_VALUE) (atr ! i) else NaN) [0..<n]"

subsection \<open>Trailing stop loop\<close>

definition TrailingStop :: "pyfloat list \<Rightarrow> pyfloat list \<Rightarrow> pyfloat list" where
  "TrailingStop ha_close n_loss_col =
     fold (\<lambda>i trailing_stop.
             let prev_stop = trailing_stop ! (i - 1);
                 price = ha_close ! i;
                 prev_price = ha_close ! (i - 1);
                 n_loss = n_loss_col ! i
             in if fgt price prev_stop \<and> fgt prev_price prev_stop
                  then trailing_stop[i := py_max prev_stop (fsub price n_loss)]
                else if flt price prev_stop \<and> flt prev_price prev_stop
                  then trailing_stop[i := py_min prev_stop (fadd price n_loss)]
                else if fgt price prev_stop
                  then trailing_stop[i := fsub price n_loss]
                else trailing_stop[i := fadd price n_loss])
          [1..<length ha_close]
          (replicate (length ha_close) (Fin 0))"

subsection \<open>calculate_strategy\<close>

text \<open>
  \<open>ta_atr\<close> stands for the external library call
  \<open>ta.atr(df['high'], df['low'], df['close'], length=ATR_PERIOD)\<close>: it is a parameter,
  and it either fails or returns a series. Reading row 0 of an empty frame and reading
  \<open>df.iloc[-2]\<close> of a one-row frame raise \<open>IndexError\<close>. The window
  \<open>.iloc[-SL_LOOKBACK:]\<close> is the last \<open>SL_LOOKBACK\<close> rows, or all rows when there are fewer.
\<close>

type_synonym atr_fn = "pyfloat list \<Rightarrow> pyfloat list \<Rightarrow> pyfloat list \<Rightarrow> nat \<Rightarrow> error + pyfloat list"

definition calculate_strategy ::
  "atr_fn \<Rightarrow> candle list \<Rightarrow> error + (signal option \<times> pyfloat \<times> pyfloat \<times> pyfloat)" where
  "calculate_strategy ta_atr df =
     (case HA_Open df of
        Inl e \<Rightarrow> Inl e
      | Inr ha_open \<Rightarrow>
     (case ta_atr (map high df) (map low df) (map close df) ATR_PERIOD of
        Inl e \<Rightarrow> Inl e
      | Inr atr \<Rightarrow>
          let ha_close = HA_Close df;
              trailing_stop = TrailingStop ha_close (nLoss atr (length df))
          in if length df < 2 then Inl IndexError
             else
               let n = length df - 1;
                   entry_price = close (df ! n)
               in if fgt (ha_close ! n) (trailing_stop ! n)
                     \<and> fle (ha_close ! (n - 1)) (trailing_stop ! (n - 1))
                  then
                    let stop_loss = pd_min (drop (length df - SL_LOOKBACK) (map low df));
                        risk = fsub entry_price stop_loss;
                        take_profit = fadd entry_price (fmul risk (Fin RISK_REWARD))
                    in Inr (Some LONG, entry_price, stop_loss, take_profit)
                  else if flt (ha_close ! n) (trailing_stop ! n)
                     \<and> fge (ha_close ! (n - 1)) (trailing_stop ! (n - 1))
                  then
                    let stop_loss = pd_max (drop (length df - SL_LOOKBACK) (map high df));
                        risk = fsub stop_loss entry_price;
                        take_profit = fsub entry_price (fmul risk (Fin RISK_REWARD))
                    in Inr (Some SHORT, entry_price, stop_loss, take_profit)
                  else Inr (None, entry_price, Fin 0, Fin 0)))"

section \<open>Ranking\<close>

text \<open>The ticker dictionary is the list of its items in iteration order; only the
  \<open>percentage\<close> entry of a ticker is read, and it is a number or \<open>None\<close>.\<close>

record ticker =
  percentage :: "real option"

fun starts_with :: "string \<Rightarrow> string \<Rightarrow> bool" where
  "starts_with [] s = True"
| "starts_with (p # ps) [] = False"
| "starts_with (p # ps) (c # cs) = (p = c \<and> starts_with ps cs)"

text \<open>Python's \<open>sub in s\<close> on strings.\<close>

fun py_in :: "string \<Rightarrow> string \<Rightarrow> bool" where
  "py_in sub [] = (sub = [])"
| "py_in sub (c # cs) = (starts_with sub (c # cs) \<or> py_in sub cs)"

definition valid_symbol :: "string \<Rightarrow> bool" where
  "valid_symbol symbol =
     (py_in ''/USDT'' symbol \<and> \<not> py_in ''UP/'' symbol \<and> \<not> py_in ''DOWN/'' symbol)"

text \<open>The sort key \<open>tickers[x]['percentage'] if tickers[x]['percentage'] else -100\<close>: the
  lookup raises \<open>KeyError\<close> on a missing symbol, and \<open>None\<close> and \<open>0.0\<close> are both falsy.\<close>

definition sort_key_of :: "(string \<times> ticker) list \<Rightarrow> string \<Rightarrow> error + real" where
  "sort_key_of tickers x =
     (case map_of tickers x of
        None \<Rightarrow> Inl KeyError
      | Some d \<Rightarrow>
          Inr (case percentage d of
                 None \<Rightarrow> - 100
               | Some p \<Rightarrow> if p \<noteq> 0 then p else - 100))"

text \<open>\<open>sorted(..., reverse=True)\<close> is a stable sort by descending key: \<open>sort_key\<close> on the
  negated key. Every exception inside the function is caught and yields the empty list.\<close>

definition get_top_gainers :: "error + (string \<times> ticker) list \<Rightarrow> string list" where
  "get_top_gainers fetched =
     (case fetched of
        Inl e \<Rightarrow> []
      | Inr tickers \<Rightarrow>
          let valid_tickers = filter valid_symbol (map fst tickers)
          in if list_ex (\<lambda>x. isl (sort_key_of tickers x)) valid_tickers then []
             else take TOP_N (sort_key (\<lambda>x. - projr (sort_key_of tickers x)) valid_tickers))"

section \<open>The scan\<close>

text \<open>The alert text is modelled by the values it is formatted from; the console output
  and the Telegram traffic are the events of a trace, in the order they happen.\<close>

record alert =
  a_symbol :: string
  a_signal :: signal
  a_entry :: pyfloat
  a_stop_loss :: pyfloat
  a_take_profit :: pyfloat

datatype event =
    ScanStart "string list"
  | SignalFound string
  | Sent alert
  | TelegramError alert
  | AnalyzeError string error
  | ScanComplete

record env =
  fetch_tickers :: "error + (string \<times> ticker) list"
  fetch_ohlcv :: "string \<Rightarrow> error + candle list"
  pandas_ta_atr :: atr_fn
  bot_send :: "alert \<Rightarrow> bool"

text \<open>\<open>send_telegram_message\<close> catches every exception of the transport itself.\<close>

definition send_telegram_message :: "env \<Rightarrow> alert \<Rightarrow> event list \<Rightarrow> event list" where
  "send_telegram_message e msg out =
     (if bot_send e msg then out @ [Sent msg] else out @ [TelegramError msg])"

text \<open>The body of the \<open>for\<close> loop of \<open>run_scanner\<close>, with its \<open>try\<close>/\<open>except\<close>.\<close>

definition scan_symbol :: "env \<Rightarrow> string \<Rightarrow> event list \<Rightarrow> event list" where
  "scan_symbol e symbol out =
     (case fetch_ohlcv e symbol of
        Inl err \<Rightarrow> out @ [AnalyzeError symbol err]
      | Inr df \<Rightarrow>
          if length df < LIMIT then out
          else (case calculate_strategy (pandas_ta_atr e) df of
                  Inl err \<Rightarrow> out @ [AnalyzeError symbol err]
                | Inr (sig, entry, sl, tp) \<Rightarrow>
                    (case sig of
                       None \<Rightarrow> out
                     | Some s \<Rightarrow>
                         send_telegram_message e
                           \<lparr>a_symbol = symbol, a_signal = s, a_entry = entry,
                            a_stop_loss = sl, a_take_profit = tp\<rparr>
                           (out @ [SignalFound symbol]))))"

definition run_scanner :: "env \<Rightarrow> event list" where
  "run_scanner e =
     (let top_coins = get_top_gainers (fetch_tickers e)
      in fold (scan_symbol e) top_coins [ScanStart top_coins] @ [ScanComplete])"

section \<open>Reference formulations and example data\<close>

text \<open>The transition of the trailing stop as one value: given the previous stop, the
  current and previous Heikin Ashi close and the current loss threshold, the four
  branches in their priority order.\<close>

definition stop_rule :: "pyfloat \<Rightarrow> pyfloat \<Rightarrow> pyfloat \<Rightarrow> pyfloat \<Rightarrow> pyfloat" where
  "stop_rule prevStop price prevPrice loss =
     (if fgt price prevStop \<and> fgt prevPrice prevStop then py_max prevStop (fsub price loss)
      else if flt price prevStop \<and> flt prevPrice prevStop then py_min prevStop (fadd price loss)
      else if fgt price prevStop then fsub price loss
      else fadd price loss)"

text \<open>A candle with finite prices, and small series used to exercise the functions.\<close>

definition bar :: "real \<Rightarrow> real \<Rightarrow> real \<Rightarrow> real \<Rightarrow> candle" where
  "bar opn h l c =
     \<lparr>timestamp = 0, c_open = Fin opn, high = Fin h, low = Fin l, close = Fin c, volume = Fin 0\<rparr>"

definition three_bars :: "candle list" where
  "three_bars = [bar 1 1 1 1, bar 2 2 2 2, bar 3 4 2 3]"

text \<open>The trailing stop as a recursion that carries the previous stop and the previous
  price forward, one candle at a time.\<close>

fun stops_from :: "pyfloat \<Rightarrow> pyfloat \<Rightarrow> pyfloat list \<Rightarrow> pyfloat list \<Rightarrow> pyfloat list" where
  "stops_from prev_stop prev_price (price # ps) (loss # ls) =
     stop_rule prev_stop price prev_price loss
       # stops_from (stop_rule prev_stop price prev_price loss) price ps ls"
| "stops_from prev_stop prev_price _ _ = []"

definition stops :: "pyfloat list \<Rightarrow> pyfloat list \<Rightarrow> pyfloat list" where
  "stops ha nl = (case ha of [] \<Rightarrow> [] | p0 # ps \<Rightarrow> Fin 0 # stops_from (Fin 0) p0 ps (tl nl))"

text \<open>The entries of a column at its last \<open>w\<close> indices (all of them when there are fewer
  than \<open>w\<close>), and what it means for a value to be the minimum or the maximum of a window:
  it bounds every defined entry and, unless nothing is defined, it is one of them.\<close>

definition last_window :: "nat \<Rightarrow> 'a list \<Rightarrow> 'a list" where
  "last_window w xs = map (\<lambda>i. xs ! i) [length xs - w..<length xs]"

definition is_minimum_of :: "pyfloat \<Rightarrow> pyfloat list \<Rightarrow> bool" where
  "is_minimum_of m xs =
     (list_all (\<lambda>x. x = NaN \<or> fle m x) xs \<and> (if drop_nan xs = [] then m = NaN else m \<in> set xs))"

definition is_maximum_of :: "pyfloat \<Rightarrow> pyfloat list \<Rightarrow> bool" where
  "is_maximum_of m xs =
     (list_all (\<lambda>x. x = NaN \<or> fge m x) xs \<and> (if drop_nan xs = [] then m = NaN else m \<in> set xs))"

fun is_signal_event :: "event \<Rightarrow> bool" where
  "is_signal_event (SignalFound s) = True"
| "is_signal_event _ = False"

text \<open>Series of 100 candles. Their true range is 1 at every candle (each candle spans
  one unit and contains the previous close), so the average true range is 1 wherever it
  is defined; \<open>unit_atr\<close> is that series, undefined on the first \<open>p\<close> candles.\<close>

definition unit_atr :: atr_fn where
  "unit_atr h l c p = Inr (replicate p NaN @ replicate (length h - p) (Fin 1))"

definition falling_then_flat :: "candle list" where
  "falling_then_flat =
     replicate 83 (bar 12 13 12 12)
     @ [bar 12 12 11 11, bar 11 11 10 10, bar 10 10 9 9, bar 9 9 8 8,
        bar (17/2) 9 8 8, bar 8 9 8 9, bar 9 10 9 10]
     @ replicate 9 (bar 10 11 10 10)"

definition long_series :: "candle list" where
  "long_series = falling_then_flat @ [bar 10 11 10 11]"

definition zero_risk_series :: "candle list" where
  "zero_risk_series = falling_then_flat @ [bar 11 11 10 10]"

definition short_series :: "candle list" where
  "short_series =
     replicate 97 (bar 12 13 12 12) @ [bar 12 12 11 11, bar 11 11 10 10, bar 10 10 9 9]"

definition flat_series :: "candle list" where
  "flat_series = replicate 100 (bar 12 13 12 12)"

definition zero_open_series :: "candle list" where
  "zero_open_series = bar 0 0 0 0 # bar 0 1 0 1 # replicate 98 (bar 1 1 0 1)"

text \<open>The falling-then-flat series five units higher, ending in a candle that closes at
  the double written \<open>15.9\<close>.\<close>

definition decimal_series :: "candle list" where
  "decimal_series =
     replicate 83 (bar 17 18 17 17)
     @ [bar 17 17 16 16, bar 16 16 15 15, bar 15 15 14 14, bar 14 14 13 13,
        bar (27/2) 14 13 13, bar 13 14 13 14, bar 14 15 14 15]
     @ replicate 9 (bar 15 16 15 15)
     @ [\<lparr>timestamp = 0, c_open = Fin 15, high = Fin 16, low = Fin 15,
         close = round_double (159 / 10), volume = Fin 0\<rparr>]"

text \<open>Environments for the scan.\<close>

definition zero_risk_env :: env where
  "zero_risk_env =
     \<lparr>fetch_tickers = Inr [(''AAA/USDT'', \<lparr>percentage = Some 5\<rparr>)],
      fetch_ohlcv = (\<lambda>symbol. Inr zero_risk_series),
      pandas_ta_atr = unit_atr,
      bot_send = (\<lambda>msg. True)\<rparr>"

definition demo_tickers :: "(string \<times> ticker) list" where
  "demo_tickers =
     [(''CCC/USDT'', \<lparr>percentage = Some 1\<rparr>),
      (''AAA/USDT'', \<lparr>percentage = Some 10\<rparr>),
      (''BBB/USDT'', \<lparr>percentage = Some 5\<rparr>)]"

definition demo_env :: env where
  "demo_env =
     \<lparr>fetch_tickers = Inr demo_tickers,
      fetch_ohlcv = (\<lambda>symbol. if symbol = ''AAA/USDT'' then Inl NetworkError
                              else if symbol = ''BBB/USDT'' then Inr three_bars
                              else Inr long_series),
      pandas_ta_atr = unit_atr,
      bot_send = (\<lambda>msg. True)\<rparr>"


section \<open>Rounding to binary64\<close>

lemma ilog2_bounds:
  assumes "0 < x"
  shows "2 powi (ilog2 x) \<le> x \<and> x < 2 powi (ilog2 x + 1)"
proof (cases "1 \<le> x")
  case True
  define n where "n = \<lfloor>x\<rfloor>"
  have n: "1 \<le> n" "of_int n \<le> x" "x < of_int n + 1" using True unfolding n_def by linarith+
  then have n0: "0 < n" by simp
  define k where "k = bitlen n"
  from bitlen_bounds [OF n0]
  have b: "2 ^ nat (k - 1) \<le> n" "n < 2 ^ nat k" unfolding k_def by simp_all
  have k1: "1 \<le> k"
  proof (rule ccontr)
    assume "\<not> 1 \<le> k"
    then have "nat k = 0" by simp
    with b(2) have "n < 1" by simp
    with n0 show False by simp
  qed
  have il: "ilog2 x = k - 1" using True by (simp add: ilog2_def n_def k_def)
  have "2 powi (k - 1) = (2::real) ^ nat (k - 1)" using k1 by (simp add: power_int_def)
  also have "\<dots> = of_int (2 ^ nat (k - 1))" by simp
  also have "\<dots> \<le> of_int n" using b(1) by (simp only: of_int_le_iff)
  finally have lo: "2 powi (k - 1) \<le> x" using n(2) by linarith
  have "n + 1 \<le> 2 ^ nat k" using b(2) by simp
  then have "of_int (n + 1) \<le> (of_int (2 ^ nat k) :: real)" by (simp only: of_int_le_iff)
  then have "x < 2 ^ nat k" using n(3) by simp
  moreover have "2 powi (k - 1 + 1) = (2::real) ^ nat k" using k1 by (simp add: power_int_def)
  ultimately have hi: "x < 2 powi (k - 1 + 1)" by simp
  show ?thesis unfolding il using lo hi by blast
next
  case False
  then have x1: "x < 1" by simp
  define y where "y = 1 / x"
  have y1: "1 < y" using assms x1 unfolding y_def by simp
  define m where "m = \<lceil>y\<rceil> - 1"
  have m: "of_int m < y" "y \<le> of_int m + 1" unfolding m_def by linarith+
  have m0: "0 < m" using y1 m(2) by linarith
  define k where "k = bitlen m"
  from bitlen_bounds [OF m0]
  have b: "2 ^ nat (k - 1) \<le> m" "m < 2 ^ nat k" unfolding k_def by simp_all
  have k1: "1 \<le> k"
  proof (rule ccontr)
    assume "\<not> 1 \<le> k"
    then have "nat k = 0" by simp
    with b(2) have "m < 1" by simp
    with m0 show False by simp
  qed
  have il: "ilog2 x = - k" using False by (simp add: ilog2_def m_def y_def k_def)
  have "m + 1 \<le> 2 ^ nat k" using b(2) by simp
  then have "of_int (m + 1) \<le> (of_int (2 ^ nat k) :: real)" by (simp only: of_int_le_iff)
  then have yk: "y \<le> 2 ^ nat k" using m(2) by simp
  have "(2::real) ^ nat (k - 1) = of_int (2 ^ nat (k - 1))" by simp
  also have "\<dots> \<le> of_int m" using b(1) by (simp only: of_int_le_iff)
  finally have ky: "2 ^ nat (k - 1) < y" using m(1) by linarith
  have p1: "2 powi (- k) = 1 / (2::real) ^ nat k"
    using k1 by (simp add: power_int_def field_simps)
  have p2: "2 powi (- k + 1) = 1 / (2::real) ^ nat (k - 1)"
    using k1 by (simp add: power_int_def field_simps)
  have xy: "x = 1 / y" unfolding y_def using assms by simp
  have lo: "2 powi (- k) \<le> x"
    unfolding p1 xy using yk y1 by (simp add: frac_le)
  have hi: "x < 2 powi (- k + 1)"
    unfolding p2 xy using ky y1 by (simp add: frac_less2)
  show ?thesis unfolding il using lo hi by blast
qed

lemma ilog2_unique:
  assumes "0 < x" and "2 powi e \<le> x" and "x < 2 powi (e + 1)"
  shows "ilog2 x = e"
proof -
  from ilog2_bounds [OF assms(1)]
  have b: "2 powi (ilog2 x) \<le> x" "x < 2 powi (ilog2 x + 1)" by blast+
  have "\<not> ilog2 x < e"
  proof
    assume "ilog2 x < e"
    then have "ilog2 x + 1 \<le> e" by simp
    then have "(2::real) powi (ilog2 x + 1) \<le> 2 powi e" by (intro power_int_increasing) simp_all
    with b(2) assms(2) show False by linarith
  qed
  moreover have "\<not> e < ilog2 x"
  proof
    assume "e < ilog2 x"
    then have "e + 1 \<le> ilog2 x" by simp
    then have "(2::real) powi (e + 1) \<le> 2 powi (ilog2 x)" by (intro power_int_increasing) simp_all
    with b(1) assms(3) show False by linarith
  qed
  ultimately show ?thesis by simp
qed

lemma round_half_even_of_int [simp]: "round_half_even (of_int n) = n"
  by (simp add: round_half_even_def)

lemma round_half_even_error: "\<bar>of_int (round_half_even q) - q\<bar> \<le> 1 / 2"
proof -
  define f where "f = \<lfloor>q\<rfloor>"
  define d where "d = q - of_int f"
  have d: "0 \<le> d" "d < 1" unfolding d_def f_def by linarith+
  have q: "q = of_int f + d" unfolding d_def by simp
  have r: "round_half_even q = (if d < 1 / 2 then f else if 1 / 2 < d then f + 1
                               else if even f then f else f + 1)"
    unfolding round_half_even_def Let_def f_def [symmetric] d_def [symmetric] ..
  consider "d < 1 / 2" | "1 / 2 < d" | "d = 1 / 2" by linarith
  then show ?thesis
  proof cases
    case 1
    then have "round_half_even q = f" using r by simp
    then show ?thesis using q d 1 by simp
  next
    case 2
    then have "round_half_even q = f + 1" using r by simp
    then show ?thesis using q d 2 by simp
  next
    case 3
    then have "round_half_even q = f \<or> round_half_even q = f + 1" using r by simp
    then show ?thesis using q 3 by auto
  qed
qed

lemma powi_less_cancel:
  assumes "(2::real) powi a < 2 powi b"
  shows "a < b"
proof (rule ccontr)
  assume "\<not> a < b"
  then have "b \<le> a" by simp
  then have "(2::real) powi b \<le> 2 powi a" by (intro power_int_increasing) simp_all
  with assms show False by simp
qed

lemma powi_add: "(2::real) powi (a + b) = 2 powi a * 2 powi b"
  by (rule power_int_add) simp

lemma powi_pos: "0 < (2::real) powi a"
  by simp

lemma dbl_overflow_powi: "dbl_overflow = 2 powi 1024"
  by (simp only: dbl_overflow_def power_int_numeral)

lemma dbl_min_normal_powi: "dbl_min_normal = 2 powi (- 1022)"
  by (simp only: dbl_min_normal_def power_int_minus power_int_numeral inverse_eq_divide)

lemma dbl_eps_powi: "dbl_eps = 2 powi (- 53)"
  by (simp only: dbl_eps_def power_int_minus power_int_numeral inverse_eq_divide)

lemma round_double_Fin_D:
  assumes "x \<noteq> 0" and "round_double x = Fin v"
  shows "v = of_int (round_half_even (x / 2 powi (max (- 1074) (ilog2 \<bar>x\<bar> - 52))))
             * 2 powi (max (- 1074) (ilog2 \<bar>x\<bar> - 52))"
  using assms unfolding round_double_def Let_def by (auto split: if_splits)

lemma round_half_even_bound:
  assumes "\<bar>q\<bar> \<le> of_int N"
  shows "\<bar>round_half_even q\<bar> \<le> N"
proof -
  have "\<bar>of_int (round_half_even q) - q\<bar> \<le> 1 / 2" by (rule round_half_even_error)
  then have "\<bar>real_of_int (round_half_even q)\<bar> < of_int N + 1" using assms by linarith
  then have "real_of_int \<bar>round_half_even q\<bar> < of_int (N + 1)" by simp
  then have "\<bar>round_half_even q\<bar> < N + 1" by (simp only: of_int_less_iff)
  then show ?thesis by simp
qed

text \<open>A value \<open>n * u\<close> with \<open>|q| < 2 ^ j\<close>, \<open>n\<close> the rounding of \<open>q\<close>: its size.\<close>

lemma rounded_size:
  assumes u: "u = 2 powi a" and q: "\<bar>x\<bar> \<le> 2 powi (a + int j)"
  shows "\<bar>of_int (round_half_even (x / u)) * u\<bar> \<le> 2 powi (a + int j)"
proof -
  have u0: "0 < u" unfolding u by simp
  define n where "n = round_half_even (x / u)"
  have pj: "(2::real) powi (a + int j) = u * 2 ^ j" unfolding u powi_add by simp
  have "\<bar>x / u\<bar> = \<bar>x\<bar> / u" using u0 by simp
  also have "\<dots> \<le> (u * 2 ^ j) / u" using q u0 unfolding pj by (intro divide_right_mono) simp_all
  also have "\<dots> = of_int (2 ^ j)" using u0 by simp
  finally have "\<bar>n\<bar> \<le> 2 ^ j" unfolding n_def by (rule round_half_even_bound)
  then have "real_of_int \<bar>n\<bar> \<le> of_int (2 ^ j)" by (simp only: of_int_le_iff)
  then have nb: "\<bar>real_of_int n\<bar> \<le> 2 ^ j" by simp
  have "\<bar>of_int n * u\<bar> = \<bar>real_of_int n\<bar> * u" using u0 by (simp add: abs_mult)
  also have "\<dots> \<le> 2 ^ j * u" using nb u0 by (intro mult_right_mono) simp_all
  also have "\<dots> = 2 powi (a + int j)" unfolding pj by simp
  finally show ?thesis unfolding n_def .
qed

lemma round_double_grid:
  assumes x: "x = of_int m * 2 powi k" and m: "\<bar>m\<bar> < 2 ^ 53" and k: "- 1074 \<le> k"
    and big: "\<bar>x\<bar> < dbl_overflow"
  shows "round_double x = Fin x"
proof (cases "x = 0")
  case True
  then show ?thesis by (simp add: round_double_def)
next
  case False
  define e where "e = ilog2 \<bar>x\<bar>"
  define ue where "ue = max (- 1074) (e - 52)"
  have pos: "0 < \<bar>x\<bar>" using False by simp
  have lo: "2 powi e \<le> \<bar>x\<bar>" using ilog2_bounds [OF pos] unfolding e_def by blast
  have "(of_int \<bar>m\<bar> :: real) < of_int (2 ^ 53)" using m by (simp only: of_int_less_iff)
  then have mm: "\<bar>real_of_int m\<bar> < 2 powi 53" by (simp del: power_numeral)
  have "\<bar>x\<bar> = \<bar>real_of_int m\<bar> * 2 powi k" unfolding x by (simp add: abs_mult)
  also have "\<dots> < 2 powi 53 * 2 powi k"
    using mm powi_pos [of k] by (intro mult_strict_right_mono)
  also have "\<dots> = 2 powi (53 + k)" by (rule powi_add [symmetric])
  finally have "(2::real) powi e < 2 powi (53 + k)" using lo by simp
  then have "e < 53 + k" by (rule powi_less_cancel)
  then have uek: "ue \<le> k" using k unfolding ue_def by simp
  define j where "j = nat (k - ue)"
  have kj: "k = ue + int j" using uek unfolding j_def by simp
  have pk: "(2::real) powi k = 2 powi ue * 2 ^ j" unfolding kj powi_add by simp
  have "x / 2 powi ue = real_of_int m * 2 ^ j" unfolding x pk by simp
  also have "\<dots> = of_int (m * 2 ^ j)" by simp
  finally have q: "x / 2 powi ue = of_int (m * 2 ^ j)" .
  have r: "round_half_even (x / 2 powi ue) = m * 2 ^ j"
    unfolding q by (rule round_half_even_of_int)
  have "of_int (m * 2 ^ j) * 2 powi ue = (x / 2 powi ue) * 2 powi ue" by (simp only: q)
  also have "\<dots> = x" by simp
  finally have v: "of_int (round_half_even (x / 2 powi ue)) * 2 powi ue = x" unfolding r .
  have nb: "\<not> dbl_overflow \<le> x" "\<not> x \<le> - dbl_overflow" using big by auto
  show ?thesis
    unfolding round_double_def Let_def e_def [symmetric] ue_def [symmetric] v
    using False nb by simp
qed

lemma round_double_eval:
  assumes nz: "x \<noteq> 0" and lo: "2 powi e \<le> \<bar>x\<bar>" and hi: "\<bar>x\<bar> < 2 powi (e + 1)"
    and e: "- 1022 \<le> e" "e \<le> 1022"
  shows "round_double x
         = Fin (of_int (round_half_even (x / 2 powi (e - 52))) * 2 powi (e - 52))"
proof -
  have pos: "0 < \<bar>x\<bar>" using nz by simp
  have il: "ilog2 \<bar>x\<bar> = e" using ilog2_unique [OF pos lo hi] .
  have mx: "max (- 1074) (e - 52) = e - 52" using e by simp
  define u :: real where "u = 2 powi (e - 52)"
  define v where "v = of_int (round_half_even (x / u)) * u"
  have ex: "e + 1 = (e - 52) + int 53" by simp
  have "\<bar>x\<bar> \<le> 2 powi ((e - 52) + int 53)" using hi unfolding ex by simp
  from rounded_size [OF u_def this]
  have "\<bar>v\<bar> \<le> 2 powi (e + 1)" unfolding v_def ex .
  also have "\<dots> \<le> 2 powi 1023" using e by (intro power_int_increasing) simp_all
  also have "\<dots> < 2 powi 1024" by (intro power_int_strict_increasing) simp_all
  finally have "\<bar>v\<bar> < dbl_overflow" unfolding dbl_overflow_powi .
  then have nb2: "\<not> dbl_overflow \<le> v" "\<not> v \<le> - dbl_overflow" by auto
  show ?thesis
    unfolding round_double_def Let_def il mx u_def [symmetric] v_def [symmetric]
    using nz nb2 by simp
qed

lemma round_double_rel_error:
  assumes big: "dbl_min_normal \<le> \<bar>x\<bar>" and r: "round_double x = Fin v"
  shows "\<bar>v - x\<bar> \<le> \<bar>x\<bar> * dbl_eps"
proof -
  have pos: "0 < \<bar>x\<bar>" using big powi_pos [of "- 1022"] unfolding dbl_min_normal_powi by linarith
  then have nz: "x \<noteq> 0" by simp
  define e where "e = ilog2 \<bar>x\<bar>"
  have lo: "2 powi e \<le> \<bar>x\<bar>" and hi: "\<bar>x\<bar> < 2 powi (e + 1)"
    using ilog2_bounds [OF pos] unfolding e_def by blast+
  have "(2::real) powi (- 1022) < 2 powi (e + 1)" using big hi unfolding dbl_min_normal_powi by linarith
  then have "- 1022 < e + 1" by (rule powi_less_cancel)
  then have mx: "max (- 1074) (e - 52) = e - 52" by simp
  define u :: real where "u = 2 powi (e - 52)"
  define n where "n = round_half_even (x / u)"
  have u0: "0 < u" unfolding u_def by simp
  have v: "v = of_int n * u"
    using round_double_Fin_D [OF nz r] unfolding e_def [symmetric] mx u_def [symmetric] n_def .
  have "v - x = (of_int n - x / u) * u" unfolding v using u0 by (simp add: field_simps)
  then have "\<bar>v - x\<bar> = \<bar>of_int n - x / u\<bar> * u" using u0 by (simp add: abs_mult)
  also have "\<dots> \<le> 1 / 2 * u"
    using round_half_even_error [of "x / u"] u0 unfolding n_def by (intro mult_right_mono) simp_all
  also have "\<dots> = 2 powi e * dbl_eps"
  proof -
    have "e - 52 = e + (- 53) + 1" by simp
    then have "u = 2 powi e * 2 powi (- 53) * 2 powi 1" unfolding u_def by (simp only: powi_add)
    then show ?thesis unfolding dbl_eps_powi by simp
  qed
  also have "\<dots> \<le> \<bar>x\<bar> * dbl_eps"
    using lo unfolding dbl_eps_powi by (intro mult_right_mono) simp_all
  finally show ?thesis .
qed

lemma round_double_tiny:
  assumes small: "\<bar>x\<bar> < dbl_min_normal" and r: "round_double x = Fin v"
  shows "\<bar>v\<bar> \<le> dbl_min_normal"
proof (cases "x = 0")
  case True
  then have "v = 0" using r by (simp add: round_double_def)
  then show ?thesis using powi_pos [of "- 1022"] unfolding dbl_min_normal_powi by simp
next
  case False
  then have pos: "0 < \<bar>x\<bar>" by simp
  define e where "e = ilog2 \<bar>x\<bar>"
  have lo: "2 powi e \<le> \<bar>x\<bar>" using ilog2_bounds [OF pos] unfolding e_def by blast
  have "(2::real) powi e < 2 powi (- 1022)" using small lo unfolding dbl_min_normal_powi by linarith
  then have "e < - 1022" by (rule powi_less_cancel)
  then have mx: "max (- 1074) (e - 52) = - 1074" by simp
  define u :: real where "u = 2 powi (- 1074)"
  have v: "v = of_int (round_half_even (x / u)) * u"
    using round_double_Fin_D [OF False r] unfolding e_def [symmetric] mx u_def [symmetric] .
  have ex: "(- 1022 :: int) = (- 1074) + int 52" by simp
  have "\<bar>x\<bar> \<le> 2 powi ((- 1074) + int 52)"
    using small unfolding dbl_min_normal_powi ex [symmetric] by simp
  from rounded_size [OF u_def this]
  show ?thesis unfolding v dbl_min_normal_powi ex .
qed

lemma round_double_dyadic:
  assumes i: "x * 2 ^ j \<in> \<int>" and b: "\<bar>x\<bar> * 2 ^ j < 2 ^ 53" and j: "j \<le> 1074"
  shows "round_double x = Fin x"
proof -
  from i obtain m where m: "x * 2 ^ j = of_int m" by (rule Ints_cases)
  have pj: "(2::real) powi (- int j) = 1 / 2 ^ j"
    by (simp only: power_int_minus power_int_of_nat inverse_eq_divide)
  have x: "x = of_int m * 2 powi (- int j)"
    unfolding pj m [symmetric] by simp
  have "\<bar>real_of_int m\<bar> = \<bar>x\<bar> * 2 ^ j" unfolding m [symmetric] by (simp add: abs_mult)
  also have "\<dots> < of_int (2 ^ 53)" using b by simp
  finally have "real_of_int \<bar>m\<bar> < of_int (2 ^ 53)" by simp
  then have mb: "\<bar>m\<bar> < 2 ^ 53" by (simp only: of_int_less_iff)
  have k: "- 1074 \<le> - int j" using j by simp
  have "\<bar>x\<bar> * 1 \<le> \<bar>x\<bar> * 2 ^ j" by (intro mult_left_mono) simp_all
  also have "\<dots> < 2 powi 53" using b by (simp del: power_numeral)
  also have "\<dots> < 2 powi 1024" by (intro power_int_strict_increasing) simp_all
  finally have big: "\<bar>x\<bar> < dbl_overflow" unfolding dbl_overflow_powi by simp
  show ?thesis by (rule round_double_grid [OF x mb k big])
qed

lemma round_double_eighths [simp]:
  "x * 8 \<in> \<int> \<Longrightarrow> \<bar>x\<bar> * 8 < 9007199254740992 \<Longrightarrow> round_double x = Fin x"
  using round_double_dyadic [of x 3] by simp

section \<open>The two loops\<close>

lemma fold_update_loop:
  fixes g :: "nat \<Rightarrow> 'a \<Rightarrow> 'a"
  assumes "m < length init"
  shows "length (fold (\<lambda>i ts. ts[i := g i (ts ! (i - 1))]) [1..<Suc m] init) = length init
         \<and> fold (\<lambda>i ts. ts[i := g i (ts ! (i - 1))]) [1..<Suc m] init ! 0 = init ! 0
         \<and> (\<forall>i. 1 \<le> i \<and> i \<le> m \<longrightarrow>
               fold (\<lambda>i ts. ts[i := g i (ts ! (i - 1))]) [1..<Suc m] init ! i
               = g i (fold (\<lambda>i ts. ts[i := g i (ts ! (i - 1))]) [1..<Suc m] init ! (i - 1)))"
  using assms
proof (induction m)
  case 0
  then show ?case by simp
next
  case (Suc m)
  define P where "P = fold (\<lambda>i ts. ts[i := g i (ts ! (i - 1))]) [1..<Suc m] init"
  have "m < length init" using Suc.prems by simp
  from Suc.IH [OF this]
  have IH0: "length P = length init \<and> P ! 0 = init ! 0
    \<and> (\<forall>i. 1 \<le> i \<and> i \<le> m \<longrightarrow> P ! i = g i (P ! (i - 1)))"
    unfolding P_def .
  have IH: "length P = length init" "P ! 0 = init ! 0"
    "\<And>i. 1 \<le> i \<Longrightarrow> i \<le> m \<Longrightarrow> P ! i = g i (P ! (i - 1))"
    using IH0 by blast+
  have step: "fold (\<lambda>i ts. ts[i := g i (ts ! (i - 1))]) [1..<Suc (Suc m)] init
              = P[Suc m := g (Suc m) (P ! m)]"
    unfolding P_def by simp
  have len: "Suc m < length P" using Suc.prems IH(1) by simp
  have a: "length (P[Suc m := g (Suc m) (P ! m)]) = length init" using IH(1) by simp
  have b: "(P[Suc m := g (Suc m) (P ! m)]) ! 0 = init ! 0" using IH(2) by simp
  have c: "(P[Suc m := g (Suc m) (P ! m)]) ! i = g i ((P[Suc m := g (Suc m) (P ! m)]) ! (i - 1))"
    if "1 \<le> i" "i \<le> Suc m" for i
  proof (cases "i \<le> m")
    case True
    then show ?thesis using IH(3) [of i] that by (auto simp: nth_list_update)
  next
    case False
    then have "i = Suc m" using that by simp
    then show ?thesis using len by (simp add: nth_list_update)
  qed
  show ?case
    unfolding step
  proof (intro conjI allI impI)
    show "length (P[Suc m := g (Suc m) (P ! m)]) = length init" by (rule a)
    show "(P[Suc m := g (Suc m) (P ! m)]) ! 0 = init ! 0" by (rule b)
    fix i assume "1 \<le> i \<and> i \<le> Suc m"
    then show "(P[Suc m := g (Suc m) (P ! m)]) ! i = g i ((P[Suc m := g (Suc m) (P ! m)]) ! (i - 1))"
      using c [of i] by blast
  qed
qed

lemma fold_append_loop:
  fixes h :: "nat \<Rightarrow> 'a \<Rightarrow> 'a"
  shows "length (fold (\<lambda>i acc. acc @ [h i (acc ! (i - 1))]) [1..<Suc m] [a0]) = Suc m
         \<and> fold (\<lambda>i acc. acc @ [h i (acc ! (i - 1))]) [1..<Suc m] [a0] ! 0 = a0
         \<and> (\<forall>i. 1 \<le> i \<and> i \<le> m \<longrightarrow>
               fold (\<lambda>i acc. acc @ [h i (acc ! (i - 1))]) [1..<Suc m] [a0] ! i
               = h i (fold (\<lambda>i acc. acc @ [h i (acc ! (i - 1))]) [1..<Suc m] [a0] ! (i - 1)))"
proof (induction m)
  case 0
  then show ?case by simp
next
  case (Suc m)
  define P where "P = fold (\<lambda>i acc. acc @ [h i (acc ! (i - 1))]) [1..<Suc m] [a0]"
  have IH0: "length P = Suc m \<and> P ! 0 = a0
    \<and> (\<forall>i. 1 \<le> i \<and> i \<le> m \<longrightarrow> P ! i = h i (P ! (i - 1)))"
    using Suc.IH unfolding P_def .
  have IH: "length P = Suc m" "P ! 0 = a0"
    "\<And>i. 1 \<le> i \<Longrightarrow> i \<le> m \<Longrightarrow> P ! i = h i (P ! (i - 1))"
    using IH0 by blast+
  have "[1..<Suc (Suc m)] = [1..<Suc m] @ [Suc m]" by simp
  then have step: "fold (\<lambda>i acc. acc @ [h i (acc ! (i - 1))]) [1..<Suc (Suc m)] [a0]
              = P @ [h (Suc m) (P ! m)]"
    unfolding P_def by simp
  have a: "length (P @ [h (Suc m) (P ! m)]) = Suc (Suc m)" using IH(1) by simp
  have b: "(P @ [h (Suc m) (P ! m)]) ! 0 = a0" using IH(1,2) by (simp add: nth_append)
  have c: "(P @ [h (Suc m) (P ! m)]) ! i = h i ((P @ [h (Suc m) (P ! m)]) ! (i - 1))"
    if "1 \<le> i" "i \<le> Suc m" for i
  proof (cases "i \<le> m")
    case True
    then show ?thesis using IH(1) IH(3) [of i] that by (auto simp: nth_append)
  next
    case False
    then have "i = Suc m" using that by simp
    then show ?thesis using IH(1) by (simp add: nth_append)
  qed
  show ?case
    unfolding step
  proof (intro conjI allI impI)
    show "length (P @ [h (Suc m) (P ! m)]) = Suc (Suc m)" by (rule a)
    show "(P @ [h (Suc m) (P ! m)]) ! 0 = a0" by (rule b)
    fix i assume "1 \<le> i \<and> i \<le> Suc m"
    then show "(P @ [h (Suc m) (P ! m)]) ! i = h i ((P @ [h (Suc m) (P ! m)]) ! (i - 1))"
      using c [of i] by blast
  qed
qed

lemma TrailingStop_as_update:
  "TrailingStop ha nl =
     fold (\<lambda>i ts. ts[i := stop_rule (ts ! (i - 1)) (ha ! i) (ha ! (i - 1)) (nl ! i)])
       [1..<length ha] (replicate (length ha) (Fin 0))"
proof -
  have eq: "(let prev_stop = trailing_stop ! (i - 1);
                 price = ha ! i;
                 prev_price = ha ! (i - 1);
                 n_loss = nl ! i
             in if fgt price prev_stop \<and> fgt prev_price prev_stop
                  then trailing_stop[i := py_max prev_stop (fsub price n_loss)]
                else if flt price prev_stop \<and> flt prev_price prev_stop
                  then trailing_stop[i := py_min prev_stop (fadd price n_loss)]
                else if fgt price prev_stop
                  then trailing_stop[i := fsub price n_loss]
                else trailing_stop[i := fadd price n_loss])
        = trailing_stop[i := stop_rule (trailing_stop ! (i - 1)) (ha ! i) (ha ! (i - 1)) (nl ! i)]"
    for i and trailing_stop :: "pyfloat list"
    by (simp add: Let_def stop_rule_def)
  show ?thesis unfolding TrailingStop_def eq ..
qed

lemma TrailingStop_loop:
  "length (TrailingStop ha nl) = length ha
   \<and> (ha \<noteq> [] \<longrightarrow> TrailingStop ha nl ! 0 = Fin 0)
   \<and> (\<forall>i. 1 \<le> i \<and> i < length ha \<longrightarrow>
         TrailingStop ha nl ! i
         = stop_rule (TrailingStop ha nl ! (i - 1)) (ha ! i) (ha ! (i - 1)) (nl ! i))"
proof (cases ha)
  case Nil
  then show ?thesis by (simp add: TrailingStop_def)
next
  case (Cons a as)
  then have n: "length ha = Suc (length as)" by simp
  have m: "length as < length (replicate (length ha) (Fin 0 :: pyfloat))" using n by simp
  define T where "T = TrailingStop ha nl"
  have T: "T = fold (\<lambda>i ts. ts[i := stop_rule (ts ! (i - 1)) (ha ! i) (ha ! (i - 1)) (nl ! i)])
       [1..<Suc (length as)] (replicate (length ha) (Fin 0))"
    unfolding T_def TrailingStop_as_update n [symmetric] ..
  from fold_update_loop [OF m, of "\<lambda>i p. stop_rule p (ha ! i) (ha ! (i - 1)) (nl ! i)"]
  have L: "length T = length (replicate (length ha) (Fin 0 :: pyfloat))
    \<and> T ! 0 = replicate (length ha) (Fin 0) ! 0
    \<and> (\<forall>i. 1 \<le> i \<and> i \<le> length as \<longrightarrow>
         T ! i = stop_rule (T ! (i - 1)) (ha ! i) (ha ! (i - 1)) (nl ! i))"
    unfolding T [symmetric] .
  have a: "length T = length ha" using L by simp
  have b: "T ! 0 = Fin 0" using L n by simp
  have c: "T ! i = stop_rule (T ! (i - 1)) (ha ! i) (ha ! (i - 1)) (nl ! i)"
    if "1 \<le> i" "i < length ha" for i
    using L that n by simp
  show ?thesis
    unfolding T_def [symmetric] using a b c by blast
qed

section \<open>Helper lemmas\<close>

lemma HA_Open_Inr: "df \<noteq> [] \<Longrightarrow> \<exists>h. HA_Open df = Inr h"
  by (cases df) (simp_all add: HA_Open_def)

lemma calculate_strategy_Inr:
  assumes "2 \<le> length df"
    and "ta_atr (map high df) (map low df) (map close df) ATR_PERIOD = Inr atr"
  shows "calculate_strategy ta_atr df =
     (if fgt (HA_Close df ! (length df - 1))
             (TrailingStop (HA_Close df) (nLoss atr (length df)) ! (length df - 1))
         \<and> fle (HA_Close df ! (length df - 1 - 1))
               (TrailingStop (HA_Close df) (nLoss atr (length df)) ! (length df - 1 - 1))
      then Inr (Some LONG, close (df ! (length df - 1)),
                pd_min (drop (length df - SL_LOOKBACK) (map low df)),
                fadd (close (df ! (length df - 1)))
                  (fmul (fsub (close (df ! (length df - 1)))
                           (pd_min (drop (length df - SL_LOOKBACK) (map low df))))
                     (Fin RISK_REWARD)))
      else if flt (HA_Close df ! (length df - 1))
             (TrailingStop (HA_Close df) (nLoss atr (length df)) ! (length df - 1))
         \<and> fge (HA_Close df ! (length df - 1 - 1))
               (TrailingStop (HA_Close df) (nLoss atr (length df)) ! (length df - 1 - 1))
      then Inr (Some SHORT, close (df ! (length df - 1)),
                pd_max (drop (length df - SL_LOOKBACK) (map high df)),
                fsub (close (df ! (length df - 1)))
                  (fmul (fsub (pd_max (drop (length df - SL_LOOKBACK) (map high df)))
                           (close (df ! (length df - 1))))
                     (Fin RISK_REWARD)))
      else Inr (None, close (df ! (length df - 1)), Fin 0, Fin 0))"
proof -
  from assms(1) have "df \<noteq> []" by auto
  then obtain h where h: "HA_Open df = Inr h" using HA_Open_Inr by blast
  have l: "\<not> length df < 2" using assms(1) by simp
  show ?thesis
    unfolding calculate_strategy_def h assms(2) Let_def
    by (simp only: sum.case l if_False)
qed

lemma calculate_strategy_Inr_D:
  assumes "calculate_strategy ta_atr df = Inr r"
  shows "2 \<le> length df
     \<and> (\<exists>atr. ta_atr (map high df) (map low df) (map close df) ATR_PERIOD = Inr atr)"
proof -
  have a: "2 \<le> length df"
  proof (rule ccontr)
    assume "\<not> 2 \<le> length df"
    then have "length df < 2" by simp
    then have "\<exists>e. calculate_strategy ta_atr df = Inl e"
      unfolding calculate_strategy_def Let_def
      by (auto split: sum.splits)
    with assms show False by auto
  qed
  have b: "\<exists>atr. ta_atr (map high df) (map low df) (map close df) ATR_PERIOD = Inr atr"
  proof (cases "ta_atr (map high df) (map low df) (map close df) ATR_PERIOD")
    case (Inl e)
    then have "\<exists>e. calculate_strategy ta_atr df = Inl e"
      unfolding calculate_strategy_def Let_def
      by (auto split: sum.splits)
    with assms show ?thesis by auto
  next
    case (Inr atr)
    then show ?thesis by blast
  qed
  from a b show ?thesis by blast
qed

lemma fgt_not_flt: "fgt a b \<Longrightarrow> \<not> flt a b"
  by (cases a; cases b) auto

lemma length_stops_from:
  "length ls = length ps \<Longrightarrow> length (stops_from s p ps ls) = length ps"
  by (induction s p ps ls rule: stops_from.induct) auto

lemma stops_from_nth:
  "length ls = length ps \<Longrightarrow> i < length ps \<Longrightarrow>
   (s0 # stops_from s0 p0 ps ls) ! Suc i
   = stop_rule ((s0 # stops_from s0 p0 ps ls) ! i) (ps ! i) ((p0 # ps) ! i) (ls ! i)"
proof (induction ps arbitrary: s0 p0 ls i)
  case Nil
  then show ?case by simp
next
  case (Cons p ps)
  then obtain l ls' where ls: "ls = l # ls'" by (cases ls) auto
  show ?case
  proof (cases i)
    case 0
    then show ?thesis by (simp add: ls)
  next
    case (Suc j)
    have "length ls' = length ps" "j < length ps" using Cons.prems ls Suc by auto
    from Cons.IH [OF this, of "stop_rule s0 p p0 l" p]
    show ?thesis by (simp add: ls Suc)
  qed
qed

lemma TrailingStop_stops:
  assumes "length nl = length ha"
  shows "TrailingStop ha nl = stops ha nl"
proof (cases ha)
  case Nil
  then show ?thesis by (simp add: TrailingStop_def stops_def)
next
  case (Cons p0 ps)
  then obtain l0 ls where nl: "nl = l0 # ls" using assms by (cases nl) auto
  have lls: "length ls = length ps" using assms Cons nl by simp
  define T where "T = TrailingStop ha nl"
  define R where "R = Fin 0 # stops_from (Fin 0) p0 ps ls"
  have R: "stops ha nl = R" by (simp add: stops_def Cons nl R_def)
  have lenT: "length T = length ha" and T0: "T ! 0 = Fin 0"
    and Tstep: "\<And>i. 1 \<le> i \<Longrightarrow> i < length ha \<Longrightarrow>
       T ! i = stop_rule (T ! (i - 1)) (ha ! i) (ha ! (i - 1)) (nl ! i)"
    using TrailingStop_loop [of ha nl] Cons unfolding T_def by auto
  have lenR: "length R = length ha" by (simp add: R_def Cons length_stops_from [OF lls])
  have eq: "i < length ha \<Longrightarrow> T ! i = R ! i" for i
  proof (induction i)
    case 0
    then show ?case using T0 by (simp add: R_def)
  next
    case (Suc i)
    then have i: "i < length ps" and IH: "T ! i = R ! i" using Cons by auto
    have "R ! Suc i = stop_rule (R ! i) (ps ! i) ((p0 # ps) ! i) (ls ! i)"
      unfolding R_def using stops_from_nth [OF lls i] .
    moreover have "T ! Suc i = stop_rule (T ! i) (ha ! Suc i) (ha ! i) (nl ! Suc i)"
      using Tstep [of "Suc i"] Suc.prems by simp
    ultimately show ?case using IH by (simp add: Cons nl)
  qed
  have "T = R" by (rule nth_equalityI) (use lenT lenR eq in auto)
  then show ?thesis unfolding T_def R by simp
qed

subsection \<open>Window minimum and maximum\<close>

lemma drop_last_window: "drop (length xs - w) xs = last_window w xs"
  unfolding last_window_def
  by (rule nth_equalityI) auto

lemma fle_refl: "a \<noteq> NaN \<Longrightarrow> fle a a"
  by (cases a) auto

lemma fle_trans: "fle a b \<Longrightarrow> fle b c \<Longrightarrow> fle a c"
  by (cases a; cases b; cases c) auto

lemma flt_fle: "flt a b \<Longrightarrow> fle a b"
  by (cases a; cases b) auto

lemma not_flt_fle: "a \<noteq> NaN \<Longrightarrow> b \<noteq> NaN \<Longrightarrow> \<not> flt a b \<Longrightarrow> fle b a"
  by (cases a; cases b) auto

lemma fge_fle: "fge a b = fle b a"
  by (cases a; cases b) auto

lemma fgt_flt: "fgt a b = flt b a"
  by (cases a; cases b) auto

lemma fold_least:
  assumes "v \<noteq> NaN" and "\<forall>x \<in> set vs. x \<noteq> NaN"
  shows "fold (\<lambda>x m. if flt x m then x else m) vs v \<in> set (v # vs)
       \<and> (\<forall>x \<in> set (v # vs). fle (fold (\<lambda>x m. if flt x m then x else m) vs v) x)"
  using assms
proof (induction vs arbitrary: v)
  case Nil
  then show ?case by (simp add: fle_refl)
next
  case (Cons y ys)
  define w where "w = (if flt y v then y else v)"
  have w: "w \<noteq> NaN" "fle w v" "fle w y" "w = y \<or> w = v"
    using Cons.prems unfolding w_def by (auto simp: flt_fle fle_refl not_flt_fle)
  have ys: "\<forall>x \<in> set ys. x \<noteq> NaN" using Cons.prems by simp
  from Cons.IH [OF w(1) ys]
  have IH: "fold (\<lambda>x m. if flt x m then x else m) ys w \<in> set (w # ys)"
    "\<forall>x \<in> set (w # ys). fle (fold (\<lambda>x m. if flt x m then x else m) ys w) x"
    by blast+
  have f: "fold (\<lambda>x m. if flt x m then x else m) (y # ys) v
      = fold (\<lambda>x m. if flt x m then x else m) ys w"
    by (simp add: w_def)
  have "fle (fold (\<lambda>x m. if flt x m then x else m) ys w) w" using IH(2) by simp
  then have "fle (fold (\<lambda>x m. if flt x m then x else m) ys w) v"
    "fle (fold (\<lambda>x m. if flt x m then x else m) ys w) y"
    using w(2,3) fle_trans by blast+
  then show ?case unfolding f using IH w(4) by auto
qed

lemma drop_nan_set: "set (drop_nan xs) = {x \<in> set xs. x \<noteq> NaN}"
  by (auto simp: drop_nan_def)

lemma pd_min_is_minimum: "is_minimum_of (pd_min xs) xs"
proof (cases "drop_nan xs")
  case Nil
  then have "\<And>x. x \<in> set xs \<Longrightarrow> x = NaN"
    using drop_nan_set [of xs] by auto
  then show ?thesis
    by (simp add: is_minimum_of_def pd_min_def Nil list_all_iff)
next
  case (Cons v vs)
  have nn: "v \<noteq> NaN" "\<forall>x \<in> set vs. x \<noteq> NaN"
    using drop_nan_set [of xs] Cons by auto
  define m where "m = fold (\<lambda>x m. if flt x m then x else m) vs v"
  have pd: "pd_min xs = m" by (simp add: pd_min_def Cons m_def)
  from fold_least [OF nn]
  have mem: "m \<in> set (v # vs)" and le: "\<forall>x \<in> set (v # vs). fle m x"
    unfolding m_def by blast+
  have sub: "set (v # vs) = {x \<in> set xs. x \<noteq> NaN}"
    using drop_nan_set [of xs] Cons by simp
  have a: "x = NaN \<or> fle m x" if "x \<in> set xs" for x
    using that le sub by auto
  have b: "m \<in> set xs" using mem sub by auto
  show ?thesis
    unfolding is_minimum_of_def pd using a b Cons
    by (auto simp: list_all_iff)
qed

lemma fold_most:
  assumes "v \<noteq> NaN" and "\<forall>x \<in> set vs. x \<noteq> NaN"
  shows "fold (\<lambda>x m. if fgt x m then x else m) vs v \<in> set (v # vs)
       \<and> (\<forall>x \<in> set (v # vs). fge (fold (\<lambda>x m. if fgt x m then x else m) vs v) x)"
  using assms
proof (induction vs arbitrary: v)
  case Nil
  then show ?case by (simp add: fge_fle fle_refl)
next
  case (Cons y ys)
  define w where "w = (if fgt y v then y else v)"
  have w: "w \<noteq> NaN" "fle v w" "fle y w" "w = y \<or> w = v"
    using Cons.prems unfolding w_def by (auto simp: fgt_flt flt_fle fle_refl not_flt_fle)
  have ys: "\<forall>x \<in> set ys. x \<noteq> NaN" using Cons.prems by simp
  from Cons.IH [OF w(1) ys]
  have IH: "fold (\<lambda>x m. if fgt x m then x else m) ys w \<in> set (w # ys)"
    "\<forall>x \<in> set (w # ys). fge (fold (\<lambda>x m. if fgt x m then x else m) ys w) x"
    by blast+
  have f: "fold (\<lambda>x m. if fgt x m then x else m) (y # ys) v
      = fold (\<lambda>x m. if fgt x m then x else m) ys w"
    by (simp add: w_def)
  have "fle w (fold (\<lambda>x m. if fgt x m then x else m) ys w)" using IH(2) by (simp add: fge_fle)
  then have "fle v (fold (\<lambda>x m. if fgt x m then x else m) ys w)"
    "fle y (fold (\<lambda>x m. if fgt x m then x else m) ys w)"
    using w(2,3) fle_trans by blast+
  then show ?case unfolding f using IH w(4) by (auto simp: fge_fle)
qed

lemma pd_max_is_maximum: "is_maximum_of (pd_max xs) xs"
proof (cases "drop_nan xs")
  case Nil
  then have "\<And>x. x \<in> set xs \<Longrightarrow> x = NaN"
    using drop_nan_set [of xs] by auto
  then show ?thesis
    by (simp add: is_maximum_of_def pd_max_def Nil list_all_iff)
next
  case (Cons v vs)
  have nn: "v \<noteq> NaN" "\<forall>x \<in> set vs. x \<noteq> NaN"
    using drop_nan_set [of xs] Cons by auto
  define m where "m = fold (\<lambda>x m. if fgt x m then x else m) vs v"
  have pd: "pd_max xs = m" by (simp add: pd_max_def Cons m_def)
  from fold_most [OF nn]
  have mem: "m \<in> set (v # vs)" and le: "\<forall>x \<in> set (v # vs). fge m x"
    unfolding m_def by blast+
  have sub: "set (v # vs) = {x \<in> set xs. x \<noteq> NaN}"
    using drop_nan_set [of xs] Cons by simp
  have a: "x = NaN \<or> fge m x" if "x \<in> set xs" for x
    using that le sub by auto
  have b: "m \<in> set xs" using mem sub by auto
  show ?thesis
    unfolding is_maximum_of_def pd using a b Cons
    by (auto simp: list_all_iff)
qed

subsection \<open>The example series\<close>

lemma length_falling_then_flat: "length falling_then_flat = 99"
  by (simp add: falling_then_flat_def)

lemma length_examples:
  "length long_series = 100" "length zero_risk_series = 100"
  "length short_series = 100" "length flat_series = 100"
  by (simp_all add: long_series_def zero_risk_series_def short_series_def flat_series_def
      length_falling_then_flat)

lemma unit_atr_100:
  "length df = 100 \<Longrightarrow>
   unit_atr (map high df) (map low df) (map close df) ATR_PERIOD
   = Inr (replicate 10 NaN @ replicate 90 (Fin 1))"
  by (simp add: unit_atr_def ATR_PERIOD_def)

lemma nLoss_unit:
  "nLoss (replicate 10 NaN @ replicate 90 (Fin 1)) 100 = replicate 10 NaN @ replicate 90 (Fin 2)"
  by (rule nth_equalityI) (auto simp: nLoss_def KEY_VALUE_def nth_append)

lemma HA_Close_falling_then_flat:
  "HA_Close falling_then_flat =
     replicate 83 (Fin (49/4))
     @ [Fin (23/2), Fin (21/2), Fin (19/2), Fin (17/2), Fin (67/8), Fin (17/2), Fin (19/2)]
     @ replicate 9 (Fin (41/4))"
  by (simp add: HA_Close_def falling_then_flat_def bar_def)

lemma HA_Close_long_series:
  "HA_Close long_series =
     replicate 83 (Fin (49/4))
     @ [Fin (23/2), Fin (21/2), Fin (19/2), Fin (17/2), Fin (67/8), Fin (17/2), Fin (19/2)]
     @ replicate 9 (Fin (41/4)) @ [Fin (21/2)]"
proof -
  have "HA_Close long_series = HA_Close falling_then_flat @ [Fin (21/2)]"
    by (simp add: HA_Close_def long_series_def bar_def)
  then show ?thesis unfolding HA_Close_falling_then_flat by simp
qed

lemma HA_Close_zero_risk_series: "HA_Close zero_risk_series = HA_Close long_series"
  by (simp add: HA_Close_def long_series_def zero_risk_series_def bar_def)

lemma TrailingStop_long_series:
  "TrailingStop (HA_Close long_series) (replicate 10 NaN @ replicate 90 (Fin 2))
   = replicate 10 (Fin 0) @ replicate 75 (Fin (41/4)) @ [Fin (23/2), Fin (21/2)]
     @ replicate 12 (Fin (83/8)) @ [Fin (17/2)]"
proof -
  have "length (replicate 10 NaN @ replicate 90 (Fin 2)) = length (HA_Close long_series)"
    by (simp add: HA_Close_def length_examples)
  from TrailingStop_stops [OF this] show ?thesis
    unfolding HA_Close_long_series
    by (simp add: stops_def stop_rule_def py_max_def py_min_def eval_nat_numeral)
qed

lemma last_two_long:
  "HA_Close long_series ! 99 = Fin (21/2)" "HA_Close long_series ! 98 = Fin (41/4)"
  "TrailingStop (HA_Close long_series) (replicate 10 NaN @ replicate 90 (Fin 2)) ! 99 = Fin (17/2)"
  "TrailingStop (HA_Close long_series) (replicate 10 NaN @ replicate 90 (Fin 2)) ! 98 = Fin (83/8)"
  unfolding TrailingStop_long_series unfolding HA_Close_long_series
  by (simp_all add: nth_append)

lemma calculate_strategy_long_series:
  "calculate_strategy unit_atr long_series = Inr (Some LONG, Fin 11, Fin 10, Fin 13)"
proof -
  have l: "2 \<le> length long_series" by (simp add: length_examples)
  have "drop 90 (map low long_series) = replicate 9 (Fin 10) @ [Fin 10]"
    by (simp add: long_series_def falling_then_flat_def bar_def)
  then have lows: "pd_min (drop 90 (map low long_series)) = Fin 10"
    by (simp add: pd_min_def drop_nan_def eval_nat_numeral)
  have cl: "close (long_series ! 99) = Fin 11"
    by (simp add: long_series_def nth_append length_falling_then_flat bar_def)
  show ?thesis
    unfolding calculate_strategy_Inr [where ta_atr = unit_atr and df = long_series, OF l unit_atr_100 [OF length_examples(1)]]
    unfolding length_examples nLoss_unit SL_LOOKBACK_def RISK_REWARD_def
    by (simp add: last_two_long lows cl)
qed

lemma calculate_strategy_zero_risk_series:
  "calculate_strategy unit_atr zero_risk_series = Inr (Some LONG, Fin 10, Fin 10, Fin 10)"
proof -
  have l: "2 \<le> length zero_risk_series" by (simp add: length_examples)
  have "drop 90 (map low zero_risk_series) = replicate 9 (Fin 10) @ [Fin 10]"
    by (simp add: zero_risk_series_def falling_then_flat_def bar_def)
  then have lows: "pd_min (drop 90 (map low zero_risk_series)) = Fin 10"
    by (simp add: pd_min_def drop_nan_def eval_nat_numeral)
  have cl: "close (zero_risk_series ! 99) = Fin 10"
    by (simp add: zero_risk_series_def nth_append length_falling_then_flat bar_def)
  show ?thesis
    unfolding calculate_strategy_Inr [where ta_atr = unit_atr and df = zero_risk_series,
        OF l unit_atr_100 [OF length_examples(2)]]
    unfolding length_examples nLoss_unit SL_LOOKBACK_def RISK_REWARD_def HA_Close_zero_risk_series
    by (simp add: last_two_long lows cl)
qed

lemma HA_Close_short_series:
  "HA_Close short_series = replicate 97 (Fin (49/4)) @ [Fin (23/2), Fin (21/2), Fin (19/2)]"
  by (simp add: HA_Close_def short_series_def bar_def)

lemma TrailingStop_short_series:
  "TrailingStop (HA_Close short_series) (replicate 10 NaN @ replicate 90 (Fin 2))
   = replicate 10 (Fin 0) @ replicate 89 (Fin (41/4)) @ [Fin (23/2)]"
proof -
  have "length (replicate 10 NaN @ replicate 90 (Fin 2)) = length (HA_Close short_series)"
    by (simp add: HA_Close_def length_examples)
  from TrailingStop_stops [OF this] show ?thesis
    unfolding HA_Close_short_series
    by (simp add: stops_def stop_rule_def py_max_def py_min_def eval_nat_numeral)
qed

lemma last_two_short:
  "HA_Close short_series ! 99 = Fin (19/2)" "HA_Close short_series ! 98 = Fin (21/2)"
  "TrailingStop (HA_Close short_series) (replicate 10 NaN @ replicate 90 (Fin 2)) ! 99 = Fin (23/2)"
  "TrailingStop (HA_Close short_series) (replicate 10 NaN @ replicate 90 (Fin 2)) ! 98 = Fin (41/4)"
  unfolding TrailingStop_short_series unfolding HA_Close_short_series
  by (simp_all add: nth_append)

lemma calculate_strategy_short_series:
  "calculate_strategy unit_atr short_series = Inr (Some SHORT, Fin 9, Fin 13, Fin 1)"
proof -
  have l: "2 \<le> length short_series" by (simp add: length_examples)
  have "drop 90 (map high short_series) = replicate 7 (Fin 13) @ [Fin 12, Fin 11, Fin 10]"
    by (simp add: short_series_def bar_def)
  then have highs: "pd_max (drop 90 (map high short_series)) = Fin 13"
    by (simp add: pd_max_def drop_nan_def eval_nat_numeral)
  have cl: "close (short_series ! 99) = Fin 9"
    by (simp add: short_series_def nth_append bar_def)
  show ?thesis
    unfolding calculate_strategy_Inr [where ta_atr = unit_atr and df = short_series,
        OF l unit_atr_100 [OF length_examples(3)]]
    unfolding length_examples nLoss_unit SL_LOOKBACK_def RISK_REWARD_def
    by (simp add: last_two_short highs cl)
qed

lemma HA_Close_flat_series: "HA_Close flat_series = replicate 100 (Fin (49/4))"
  by (simp add: HA_Close_def flat_series_def bar_def)

lemma TrailingStop_flat_series:
  "TrailingStop (HA_Close flat_series) (replicate 10 NaN @ replicate 90 (Fin 2))
   = replicate 10 (Fin 0) @ replicate 90 (Fin (41/4))"
proof -
  have "length (replicate 10 NaN @ replicate 90 (Fin 2)) = length (HA_Close flat_series)"
    by (simp add: HA_Close_def length_examples)
  from TrailingStop_stops [OF this] show ?thesis
    unfolding HA_Close_flat_series
    by (simp add: stops_def stop_rule_def py_max_def py_min_def eval_nat_numeral)
qed

lemma last_two_flat:
  "HA_Close flat_series ! 99 = Fin (49/4)" "HA_Close flat_series ! 98 = Fin (49/4)"
  "TrailingStop (HA_Close flat_series) (replicate 10 NaN @ replicate 90 (Fin 2)) ! 99 = Fin (41/4)"
  "TrailingStop (HA_Close flat_series) (replicate 10 NaN @ replicate 90 (Fin 2)) ! 98 = Fin (41/4)"
  unfolding TrailingStop_flat_series unfolding HA_Close_flat_series
  by (simp_all add: nth_append)

lemma calculate_strategy_flat_series:
  "calculate_strategy unit_atr flat_series = Inr (None, Fin 12, Fin 0, Fin 0)"
proof -
  have l: "2 \<le> length flat_series" by (simp add: length_examples)
  have cl: "close (flat_series ! 99) = Fin 12"
    by (simp add: flat_series_def bar_def)
  show ?thesis
    unfolding calculate_strategy_Inr [where ta_atr = unit_atr and df = flat_series,
        OF l unit_atr_100 [OF length_examples(4)]]
    unfolding length_examples nLoss_unit SL_LOOKBACK_def RISK_REWARD_def
    by (simp add: last_two_flat cl)
qed

subsection \<open>Undefined values\<close>

lemma nan_arith [simp]: "fsub a NaN = NaN" "fadd a NaN = NaN"
  by (cases a; simp)+

lemma nan_cmp [simp]: "\<not> fgt a NaN" "\<not> flt a NaN" "\<not> fge a NaN" "\<not> fle a NaN"
  by (cases a; simp)+

lemma stop_rule_NaN:
  "stop_rule prevStop price prevPrice NaN =
     (if (fgt price prevStop \<and> fgt prevPrice prevStop) \<or> (flt price prevStop \<and> flt prevPrice prevStop)
      then prevStop else NaN)"
  by (simp add: stop_rule_def py_max_def py_min_def)

lemma fgt_fle_contra: "fgt a b \<Longrightarrow> \<not> fle a b"
  by (cases a; cases b) auto

lemma flt_fge_contra: "flt a b \<Longrightarrow> \<not> fge a b"
  by (cases a; cases b) auto

lemma TrailingStop_nth:
  "1 \<le> i \<Longrightarrow> i < length ha \<Longrightarrow>
   TrailingStop ha nl ! i
   = stop_rule (TrailingStop ha nl ! (i - 1)) (ha ! i) (ha ! (i - 1)) (nl ! i)"
  using TrailingStop_loop [of ha nl] by blast

lemma TrailingStop_0: "ha \<noteq> [] \<Longrightarrow> TrailingStop ha nl ! 0 = Fin 0"
  using TrailingStop_loop [of ha nl] by blast

lemma seed_kept:
  assumes "i < length ha"
    and "\<forall>j. 1 \<le> j \<and> j \<le> i \<longrightarrow> nl ! j = NaN"
    and "\<forall>j. j \<le> i \<longrightarrow> fgt (ha ! j) (Fin 0)"
  shows "TrailingStop ha nl ! i = Fin 0"
  using assms
proof (induction i)
  case 0
  then have "ha \<noteq> []" by auto
  then show ?case by (rule TrailingStop_0)
next
  case (Suc i)
  then have IH: "TrailingStop ha nl ! i = Fin 0" by simp
  have step: "TrailingStop ha nl ! Suc i
      = stop_rule (TrailingStop ha nl ! i) (ha ! Suc i) (ha ! i) (nl ! Suc i)"
    using TrailingStop_nth [of "Suc i" ha nl] Suc.prems(1) by simp
  have "nl ! Suc i = NaN" using Suc.prems(2) by simp
  moreover have "fgt (ha ! Suc i) (Fin 0)" "fgt (ha ! i) (Fin 0)" using Suc.prems(3) by simp_all
  ultimately show ?case unfolding step IH by (simp add: stop_rule_NaN)
qed

lemma HA_Close_zero_open_series:
  "HA_Close zero_open_series = Fin 0 # Fin (1/2) # replicate 98 (Fin (3/4))"
  by (simp add: HA_Close_def zero_open_series_def bar_def)

subsection \<open>The scan as a concatenation\<close>

lemma scan_symbol_append: "scan_symbol e symbol out = out @ scan_symbol e symbol []"
  unfolding scan_symbol_def send_telegram_message_def
  by (auto split: sum.splits option.splits prod.splits)

lemma fold_scan_symbol:
  "fold (scan_symbol e) xs out = out @ concat (map (\<lambda>s. scan_symbol e s []) xs)"
proof (induction xs arbitrary: out)
  case Nil
  then show ?case by simp
next
  case (Cons x xs)
  have "fold (scan_symbol e) (x # xs) out = fold (scan_symbol e) xs (scan_symbol e x out)"
    by simp
  also have "\<dots> = scan_symbol e x out @ concat (map (\<lambda>s. scan_symbol e s []) xs)"
    by (rule Cons.IH)
  also have "\<dots> = out @ scan_symbol e x [] @ concat (map (\<lambda>s. scan_symbol e s []) xs)"
    using scan_symbol_append [of e x out] by simp
  finally show ?case by simp
qed

lemma demo_top_coins:
  "get_top_gainers (fetch_tickers demo_env) = [''AAA/USDT'', ''BBB/USDT'', ''CCC/USDT'']"
  by (simp add: demo_env_def demo_tickers_def get_top_gainers_def valid_symbol_def
      sort_key_of_def TOP_N_def)

subsection \<open>Ranking\<close>

lemma sort_key_of_present: "x \<in> set (map fst tickers) \<Longrightarrow> \<not> isl (sort_key_of tickers x)"
proof -
  assume "x \<in> set (map fst tickers)"
  then have "map_of tickers x \<noteq> None" by (simp add: map_of_eq_None_iff)
  then show ?thesis by (auto simp: sort_key_of_def)
qed

lemma get_top_gainers_Inr:
  "get_top_gainers (Inr tickers)
   = take TOP_N (sort_key (\<lambda>x. - projr (sort_key_of tickers x))
                   (filter valid_symbol (map fst tickers)))"
proof -
  have "\<not> list_ex (\<lambda>x. isl (sort_key_of tickers x)) (filter valid_symbol (map fst tickers))"
    using sort_key_of_present [of _ tickers] by (auto simp: list_ex_iff)
  then show ?thesis by (simp add: get_top_gainers_def Let_def)
qed

lemma get_top_gainers_ranking:
  assumes "out = get_top_gainers (Inr tickers)"
  shows "set out \<subseteq> {x \<in> set (map fst tickers). valid_symbol x}"
    and "length out \<le> TOP_N"
    and "sorted (map (\<lambda>x. - projr (sort_key_of tickers x)) out)"
    and "length (filter valid_symbol (map fst tickers)) \<le> TOP_N \<Longrightarrow>
         set out = {x \<in> set (map fst tickers). valid_symbol x}
         \<and> length out = length (filter valid_symbol (map fst tickers))"
proof -
  let ?k = "\<lambda>x. - projr (sort_key_of tickers x)"
  let ?v = "filter valid_symbol (map fst tickers)"
  have out: "out = take TOP_N (sort_key ?k ?v)" using assms get_top_gainers_Inr by simp
  show "set out \<subseteq> {x \<in> set (map fst tickers). valid_symbol x}"
    unfolding out using set_take_subset [of TOP_N "sort_key ?k ?v"] by auto
  show "length out \<le> TOP_N" unfolding out by simp
  have "sorted (map ?k (sort_key ?k ?v))" by (rule sorted_sort_key)
  then have "sorted (take TOP_N (map ?k (sort_key ?k ?v)))" by (rule sorted_wrt_take)
  then show "sorted (map ?k out)" unfolding out take_map .
  show "set out = {x \<in> set (map fst tickers). valid_symbol x}
         \<and> length out = length ?v" if "length ?v \<le> TOP_N"
  proof -
    have "out = sort_key ?k ?v" unfolding out using that by simp
    then show ?thesis by auto
  qed
qed


subsection \<open>The decimal series\<close>

lemma close_15_9: "round_double (159 / 10) = Fin (8950904259398861 / 2 ^ 49)"
proof -
  have "round_double (159 / 10)
      = Fin (of_int (round_half_even ((159 / 10) / 2 powi (3 - 52))) * 2 powi (3 - 52))"
    by (rule round_double_eval) simp_all
  also have "(159 / 10 :: real) / 2 powi (3 - 52) = 44754521296994304 / 5"
    by (simp add: power_int_minus)
  also have "round_half_even (44754521296994304 / 5) = 8950904259398861"
    by (simp add: round_half_even_def Let_def)
  finally show ?thesis by (simp add: power_int_minus)
qed

lemma sum_46_close:
  "round_double (46 + 8950904259398861 / 2 ^ 49) = Fin (8711650529194803 / 2 ^ 47)"
proof -
  have "round_double (46 + 8950904259398861 / 2 ^ 49)
      = Fin (of_int (round_half_even ((46 + 8950904259398861 / 2 ^ 49) / 2 powi (5 - 52)))
             * 2 powi (5 - 52))"
    by (rule round_double_eval) simp_all
  also have "(46 + 8950904259398861 / 2 ^ 49 :: real) / 2 powi (5 - 52) = 34846602116779213 / 4"
    by (simp add: power_int_minus)
  also have "round_half_even (34846602116779213 / 4) = 8711650529194803"
    by (simp add: round_half_even_def Let_def)
  finally show ?thesis by (simp add: power_int_minus)
qed

lemma take_profit_15_9:
  "round_double (8950904259398861 / 2 ^ 49 + 506654958079181 / 2 ^ 48)
   = Fin (4982107087778612 / 2 ^ 48)"
proof -
  have "round_double (8950904259398861 / 2 ^ 49 + 506654958079181 / 2 ^ 48)
      = Fin (of_int (round_half_even
               ((8950904259398861 / 2 ^ 49 + 506654958079181 / 2 ^ 48) / 2 powi (4 - 52)))
             * 2 powi (4 - 52))"
    by (rule round_double_eval) simp_all
  also have "(8950904259398861 / 2 ^ 49 + 506654958079181 / 2 ^ 48 :: real) / 2 powi (4 - 52)
      = 9964214175557223 / 2"
    by (simp add: power_int_minus)
  also have "round_half_even (9964214175557223 / 2) = 4982107087778612"
    by (simp add: round_half_even_def Let_def)
  finally show ?thesis by (simp add: power_int_minus)
qed

lemma round_double_grid49 [simp]:
  "x * 562949953421312 \<in> \<int> \<Longrightarrow> \<bar>x\<bar> * 562949953421312 < 9007199254740992 \<Longrightarrow>
   round_double x = Fin x"
  using round_double_dyadic [of x 49] by simp

lemma length_decimal_series: "length decimal_series = 100"
  by (simp add: decimal_series_def)

lemma HA_Close_decimal_series:
  "HA_Close decimal_series =
     replicate 83 (Fin (69/4))
     @ [Fin (33/2), Fin (31/2), Fin (29/2), Fin (27/2), Fin (107/8), Fin (27/2), Fin (29/2)]
     @ replicate 9 (Fin (61/4)) @ [Fin (8711650529194803 / 2 ^ 49)]"
  by (simp add: HA_Close_def decimal_series_def bar_def close_15_9 [simplified] sum_46_close [simplified])

lemma TrailingStop_decimal_series:
  "TrailingStop (HA_Close decimal_series) (replicate 10 NaN @ replicate 90 (Fin 2))
   = replicate 10 (Fin 0) @ replicate 75 (Fin (61/4)) @ [Fin (33/2), Fin (31/2)]
     @ replicate 12 (Fin (123/8)) @ [Fin (7585750622352179 / 2 ^ 49)]"
proof -
  have "length (replicate 10 NaN @ replicate 90 (Fin 2)) = length (HA_Close decimal_series)"
    by (simp add: HA_Close_def length_decimal_series)
  from TrailingStop_stops [OF this] show ?thesis
    unfolding HA_Close_decimal_series
    by (simp add: stops_def stop_rule_def py_max_def py_min_def eval_nat_numeral)
qed

lemma last_two_decimal:
  "HA_Close decimal_series ! 99 = Fin (8711650529194803 / 2 ^ 49)"
  "HA_Close decimal_series ! 98 = Fin (61/4)"
  "TrailingStop (HA_Close decimal_series) (replicate 10 NaN @ replicate 90 (Fin 2)) ! 99
   = Fin (7585750622352179 / 2 ^ 49)"
  "TrailingStop (HA_Close decimal_series) (replicate 10 NaN @ replicate 90 (Fin 2)) ! 98
   = Fin (123/8)"
  unfolding TrailingStop_decimal_series unfolding HA_Close_decimal_series
  by (simp_all add: nth_append)

lemma calculate_strategy_decimal_series:
  "calculate_strategy unit_atr decimal_series
   = Inr (Some LONG, Fin (8950904259398861 / 2 ^ 49), Fin 15, Fin (4982107087778612 / 2 ^ 48))"
proof -
  have l: "2 \<le> length decimal_series" by (simp add: length_decimal_series)
  have "drop 90 (map low decimal_series) = replicate 9 (Fin 15) @ [Fin 15]"
    by (simp add: decimal_series_def bar_def)
  then have lows: "pd_min (drop 90 (map low decimal_series)) = Fin 15"
    by (simp add: pd_min_def drop_nan_def eval_nat_numeral)
  have cl: "close (decimal_series ! 99) = Fin (8950904259398861 / 2 ^ 49)"
    by (simp add: decimal_series_def nth_append close_15_9 [simplified])
  have tp: "fadd (Fin (8950904259398861 / 2 ^ 49))
              (fmul (fsub (Fin (8950904259398861 / 2 ^ 49)) (Fin 15)) (Fin 2))
            = Fin (4982107087778612 / 2 ^ 48)"
  proof -
    have "fsub (Fin (8950904259398861 / 2 ^ 49)) (Fin 15) = Fin (506654958079181 / 2 ^ 49)"
      by simp
    moreover have "fmul (Fin (506654958079181 / 2 ^ 49)) (Fin 2) = Fin (506654958079181 / 2 ^ 48)"
      by simp
    ultimately show ?thesis by (simp add: take_profit_15_9 [simplified])
  qed
  show ?thesis
    unfolding calculate_strategy_Inr [where ta_atr = unit_atr and df = decimal_series,
        OF l unit_atr_100 [OF length_decimal_series]]
    unfolding length_decimal_series nLoss_unit SL_LOOKBACK_def RISK_REWARD_def
    using tp by (simp add: last_two_decimal lows cl)
qed

subsection \<open>The error of the take profit\<close>

lemma dbl_eps_bounds: "0 \<le> dbl_eps" "dbl_eps \<le> 1 / 2"
proof -
  show "0 \<le> dbl_eps" unfolding dbl_eps_powi by simp
  have "(2::real) powi (- 53) \<le> 2 powi (- 1)" by (intro power_int_increasing) simp_all
  then show "dbl_eps \<le> 1 / 2" unfolding dbl_eps_powi by (simp add: power_int_minus)
qed

lemma dbl_min_normal_pos: "0 < dbl_min_normal"
  unfolding dbl_min_normal_powi by simp

lemma dbl_min_normal_le_1: "dbl_min_normal \<le> 1"
proof -
  have "(2::real) powi (- 1022) \<le> 2 powi 0" by (intro power_int_increasing) simp_all
  then show ?thesis unfolding dbl_min_normal_powi by simp
qed

lemma dbl_min_normal_lt_1: "dbl_min_normal < 1"
proof -
  have "(2::real) powi (- 1022) < 2 powi 0" by (intro power_int_strict_increasing) simp_all
  then show ?thesis unfolding dbl_min_normal_powi by simp
qed

lemma dbl_min_normal_small: "dbl_min_normal < 1 / 2"
proof -
  have "(2::real) powi (- 1022) < 2 powi (- 1)" by (intro power_int_strict_increasing) simp_all
  then show ?thesis unfolding dbl_min_normal_powi by (simp add: power_int_minus)
qed

lemma fadd_Fin_D: "fadd (Fin e) y = Fin t \<Longrightarrow> \<exists>r. y = Fin r \<and> round_double (e + r) = Fin t"
  by (cases y) auto

lemma fsub_Fin_D: "fsub (Fin e) y = Fin t \<Longrightarrow> \<exists>r. y = Fin r \<and> round_double (e - r) = Fin t"
  by (cases y) auto

lemma fmul_Fin_D: "fmul x (Fin c) = Fin r \<Longrightarrow> \<exists>r1. x = Fin r1 \<and> round_double (r1 * c) = Fin r"
  by (cases x) (auto simp: inf_of_sign_def split: if_splits)

lemma ratio_tolerance:
  fixes a r1 r2 t e eps :: real
  assumes a: "0 < a" and eps: "0 \<le> eps" "eps \<le> 1 / 2"
    and d1: "\<bar>r1 - a\<bar> \<le> a * eps"
    and d2: "\<bar>r2 - r1 * 2\<bar> \<le> \<bar>r1 * 2\<bar> * eps"
    and d3: "\<bar>t - (e + r2)\<bar> \<le> \<bar>e + r2\<bar> * eps"
  shows "\<bar>(t - e) / a - 2\<bar> \<le> (3 + \<bar>t\<bar> / a) * (2 * eps)"
proof -
  have ah: "a * eps \<le> a * (1 / 2)" using a eps by (intro mult_left_mono) simp_all
  have r1: "0 \<le> r1" "r1 \<le> 2 * a" using d1 ah a by linarith+
  have "\<bar>r1 * 2\<bar> * eps = (2 * r1) * eps" using r1 by simp
  also have "\<dots> \<le> (2 * (2 * a)) * eps" using r1 eps by (intro mult_right_mono) simp_all
  finally have d2': "\<bar>r2 - r1 * 2\<bar> \<le> 4 * (a * eps)" using d2 by simp
  have d12: "\<bar>r2 - 2 * a\<bar> \<le> 6 * (a * eps)" using d1 d2' by linarith
  define x where "x = e + r2"
  have xh: "\<bar>x\<bar> * eps \<le> \<bar>x\<bar> * (1 / 2)" using eps by (intro mult_left_mono) simp_all
  have "\<bar>x\<bar> \<le> \<bar>t\<bar> + \<bar>x\<bar> * eps" using d3 unfolding x_def by linarith
  then have xt: "\<bar>x\<bar> \<le> 2 * \<bar>t\<bar>" using xh by linarith
  have "\<bar>x\<bar> * eps \<le> (2 * \<bar>t\<bar>) * eps" using xt eps by (intro mult_right_mono) simp_all
  then have d3': "\<bar>t - x\<bar> \<le> 2 * (\<bar>t\<bar> * eps)" using d3 unfolding x_def by simp
  have "\<bar>t - e - 2 * a\<bar> \<le> 2 * (\<bar>t\<bar> * eps) + 6 * (a * eps)"
    using d3' d12 unfolding x_def by linarith
  then have "\<bar>t - e - 2 * a\<bar> / a \<le> (2 * (\<bar>t\<bar> * eps) + 6 * (a * eps)) / a"
    using a by (intro divide_right_mono) simp_all
  moreover have "(t - e) / a - 2 = (t - e - 2 * a) / a" using a by (simp add: field_simps)
  moreover have "(2 * (\<bar>t\<bar> * eps) + 6 * (a * eps)) / a = (3 + \<bar>t\<bar> / a) * (2 * eps)"
    using a by (simp add: field_simps)
  ultimately show ?thesis using a by simp
qed

lemma take_profit_long_tolerance:
  assumes tp: "Fin t = fadd (Fin e) (fmul (fsub (Fin e) (Fin s)) (Fin RISK_REWARD))"
    and a: "dbl_min_normal \<le> e - s" and t: "dbl_min_normal < \<bar>t\<bar>"
  shows "\<bar>(t - e) / (e - s) - RISK_REWARD\<bar> \<le> (3 + \<bar>t\<bar> / (e - s)) * (2 * dbl_eps)"
proof -
  from fadd_Fin_D [OF tp [symmetric]] obtain r2 where
    r2: "fmul (fsub (Fin e) (Fin s)) (Fin RISK_REWARD) = Fin r2"
    and rt: "round_double (e + r2) = Fin t" by blast
  from fmul_Fin_D [OF r2] obtain r1 where
    r1: "fsub (Fin e) (Fin s) = Fin r1" and r12: "round_double (r1 * RISK_REWARD) = Fin r2"
    by blast
  have r1': "round_double (e - s) = Fin r1" using r1 by simp
  have r12': "round_double (r1 * 2) = Fin r2" using r12 by (simp add: RISK_REWARD_def)
  have apos: "0 < e - s" using a dbl_min_normal_pos by linarith
  have d1: "\<bar>r1 - (e - s)\<bar> \<le> (e - s) * dbl_eps"
    using round_double_rel_error [OF _ r1'] a apos by simp
  have ah: "(e - s) * dbl_eps \<le> (e - s) * (1 / 2)"
    using apos dbl_eps_bounds by (intro mult_left_mono) simp_all
  have "(e - s) - (e - s) * dbl_eps \<le> r1" using d1 by linarith
  then have "(e - s) / 2 \<le> r1" using ah by simp
  then have "e - s \<le> r1 * 2" by simp
  then have "dbl_min_normal \<le> \<bar>r1 * 2\<bar>" using a by simp
  from round_double_rel_error [OF this r12']
  have d2: "\<bar>r2 - r1 * 2\<bar> \<le> \<bar>r1 * 2\<bar> * dbl_eps" .
  have "\<not> \<bar>e + r2\<bar> < dbl_min_normal" using round_double_tiny [OF _ rt] t by fastforce
  then have "dbl_min_normal \<le> \<bar>e + r2\<bar>" by simp
  from round_double_rel_error [OF this rt]
  have d3: "\<bar>t - (e + r2)\<bar> \<le> \<bar>e + r2\<bar> * dbl_eps" .
  show ?thesis
    unfolding RISK_REWARD_def
    by (rule ratio_tolerance [OF apos dbl_eps_bounds d1 d2 d3])
qed

lemma take_profit_short_tolerance:
  assumes tp: "Fin t = fsub (Fin e) (fmul (fsub (Fin s) (Fin e)) (Fin RISK_REWARD))"
    and a: "dbl_min_normal \<le> s - e" and t: "dbl_min_normal < \<bar>t\<bar>"
  shows "\<bar>(e - t) / (s - e) - RISK_REWARD\<bar> \<le> (3 + \<bar>t\<bar> / (s - e)) * (2 * dbl_eps)"
proof -
  from fsub_Fin_D [OF tp [symmetric]] obtain r2 where
    r2: "fmul (fsub (Fin s) (Fin e)) (Fin RISK_REWARD) = Fin r2"
    and rt: "round_double (e - r2) = Fin t" by blast
  from fmul_Fin_D [OF r2] obtain r1 where
    r1: "fsub (Fin s) (Fin e) = Fin r1" and r12: "round_double (r1 * RISK_REWARD) = Fin r2"
    by blast
  have r1': "round_double (s - e) = Fin r1" using r1 by simp
  have r12': "round_double (r1 * 2) = Fin r2" using r12 by (simp add: RISK_REWARD_def)
  have apos: "0 < s - e" using a dbl_min_normal_pos by linarith
  have d1: "\<bar>r1 - (s - e)\<bar> \<le> (s - e) * dbl_eps"
    using round_double_rel_error [OF _ r1'] a apos by simp
  have ah: "(s - e) * dbl_eps \<le> (s - e) * (1 / 2)"
    using apos dbl_eps_bounds by (intro mult_left_mono) simp_all
  have "(s - e) - (s - e) * dbl_eps \<le> r1" using d1 by linarith
  then have "(s - e) / 2 \<le> r1" using ah by simp
  then have "s - e \<le> r1 * 2" by simp
  then have "dbl_min_normal \<le> \<bar>r1 * 2\<bar>" using a by simp
  from round_double_rel_error [OF this r12']
  have d2: "\<bar>r2 - r1 * 2\<bar> \<le> \<bar>r1 * 2\<bar> * dbl_eps" .
  have "\<not> \<bar>e - r2\<bar> < dbl_min_normal" using round_double_tiny [OF _ rt] t by fastforce
  then have "dbl_min_normal \<le> \<bar>e - r2\<bar>" by simp
  from round_double_rel_error [OF this rt]
  have "\<bar>t - (e - r2)\<bar> \<le> \<bar>e - r2\<bar> * dbl_eps" .
  then have d3: "\<bar>(- t) - ((- e) + r2)\<bar> \<le> \<bar>(- e) + r2\<bar> * dbl_eps"
    by (simp add: abs_minus_commute algebra_simps)
  have "\<bar>((- t) - (- e)) / (s - e) - 2\<bar> \<le> (3 + \<bar>- t\<bar> / (s - e)) * (2 * dbl_eps)"
    by (rule ratio_tolerance [OF apos dbl_eps_bounds d1 d2 d3])
  then show ?thesis unfolding RISK_REWARD_def by simp
qed

section \<open>Trailing stop\<close>

text \<open>
  C1. For every series the trailing-stop column has one entry per candle, its entry 0 is
  0.0, and for every index \<open>i \<ge> 1\<close>, with \<open>price = haClose[i]\<close>,
  \<open>prevPrice = haClose[i-1]\<close>, \<open>prevStop = trailingStop[i-1]\<close> and \<open>loss = nLoss[i]\<close>, entry
  \<open>i\<close> is \<open>max(prevStop, price - loss)\<close> when price and prevPrice are both above prevStop,
  else \<open>min(prevStop, price + loss)\<close> when both are below, else \<open>price - loss\<close> when price
  is above, else \<open>price + loss\<close>: the branches in this priority, each entry computed from
  the entry before it.
\<close>

theorem trailing_stop_recurrence:
  assumes "haClose = HA_Close df"
    and "loss = nLoss atr (length df)"
    and "trailingStop = TrailingStop haClose loss"
  shows "length trailingStop = length df
    \<and> (df \<noteq> [] \<longrightarrow> trailingStop ! 0 = Fin 0)
    \<and> (\<forall>i. 1 \<le> i \<and> i < length df \<longrightarrow>
          trailingStop ! i =
            (if fgt (haClose ! i) (trailingStop ! (i - 1))
                \<and> fgt (haClose ! (i - 1)) (trailingStop ! (i - 1))
               then py_max (trailingStop ! (i - 1)) (fsub (haClose ! i) (loss ! i))
             else if flt (haClose ! i) (trailingStop ! (i - 1))
                \<and> flt (haClose ! (i - 1)) (trailingStop ! (i - 1))
               then py_min (trailingStop ! (i - 1)) (fadd (haClose ! i) (loss ! i))
             else if fgt (haClose ! i) (trailingStop ! (i - 1))
               then fsub (haClose ! i) (loss ! i)
             else fadd (haClose ! i) (loss ! i)))"
proof -
  have len: "length haClose = length df" using assms(1) by (simp add: HA_Close_def)
  have ne: "df \<noteq> [] \<Longrightarrow> haClose \<noteq> []" using len by auto
  show ?thesis
    using TrailingStop_loop [of haClose loss] len ne
    unfolding assms(3) [symmetric] stop_rule_def by simp
qed

theorem trailing_stop_recurrence_witness:
  "TrailingStop (HA_Close three_bars) (nLoss [NaN, Fin (1/2), Fin (1/4)] 3) ! 2 = Fin (5/2)"
proof -
  have one: "TrailingStop (HA_Close three_bars) (nLoss [NaN, Fin (1/2), Fin (1/4)] 3) ! 1 = Fin 1"
    by (simp add: TrailingStop_as_update stop_rule_def py_max_def py_min_def HA_Close_def
        nLoss_def three_bars_def bar_def KEY_VALUE_def)
  have ha: "HA_Close three_bars = [Fin 1, Fin 2, Fin 3]"
    by (simp add: HA_Close_def three_bars_def bar_def)
  have nl: "nLoss [NaN, Fin (1/2), Fin (1/4)] 3 = [NaN, Fin 1, Fin (1/2)]"
    by (simp add: nLoss_def KEY_VALUE_def upt_rec)
  have len: "length three_bars = 3" by (simp add: three_bars_def)
  from trailing_stop_recurrence [OF refl refl refl, of three_bars "[NaN, Fin (1/2), Fin (1/4)]"]
  have "1 \<le> (2::nat) \<and> 2 < length three_bars \<longrightarrow>
          TrailingStop (HA_Close three_bars) (nLoss [NaN, Fin (1/2), Fin (1/4)] (length three_bars)) ! 2 =
            (if fgt (HA_Close three_bars ! 2) (TrailingStop (HA_Close three_bars) (nLoss [NaN, Fin (1/2), Fin (1/4)] (length three_bars)) ! (2 - 1))
                \<and> fgt (HA_Close three_bars ! (2 - 1)) (TrailingStop (HA_Close three_bars) (nLoss [NaN, Fin (1/2), Fin (1/4)] (length three_bars)) ! (2 - 1))
               then py_max (TrailingStop (HA_Close three_bars) (nLoss [NaN, Fin (1/2), Fin (1/4)] (length three_bars)) ! (2 - 1)) (fsub (HA_Close three_bars ! 2) (nLoss [NaN, Fin (1/2), Fin (1/4)] (length three_bars) ! 2))
             else if flt (HA_Close three_bars ! 2) (TrailingStop (HA_Close three_bars) (nLoss [NaN, Fin (1/2), Fin (1/4)] (length three_bars)) ! (2 - 1))
                \<and> flt (HA_Close three_bars ! (2 - 1)) (TrailingStop (HA_Close three_bars) (nLoss [NaN, Fin (1/2), Fin (1/4)] (length three_bars)) ! (2 - 1))
               then py_min (TrailingStop (HA_Close three_bars) (nLoss [NaN, Fin (1/2), Fin (1/4)] (length three_bars)) ! (2 - 1)) (fadd (HA_Close three_bars ! 2) (nLoss [NaN, Fin (1/2), Fin (1/4)] (length three_bars) ! 2))
             else if fgt (HA_Close three_bars ! 2) (TrailingStop (HA_Close three_bars) (nLoss [NaN, Fin (1/2), Fin (1/4)] (length three_bars)) ! (2 - 1))
               then fsub (HA_Close three_bars ! 2) (nLoss [NaN, Fin (1/2), Fin (1/4)] (length three_bars) ! 2)
             else fadd (HA_Close three_bars ! 2) (nLoss [NaN, Fin (1/2), Fin (1/4)] (length three_bars) ! 2))"
    by blast
  then show ?thesis
    unfolding len using one unfolding ha nl
    by (simp add: py_max_def)
qed

section \<open>Heikin Ashi transform\<close>

text \<open>
  C5. For every series of length at least 1 the Heikin Ashi columns have the length of
  the series, \<open>haClose[i] = (open[i] + high[i] + low[i] + close[i]) / 4\<close> at every index,
  \<open>haOpen[0] = (open[0] + close[0]) / 2\<close>, and
  \<open>haOpen[i] = (haOpen[i-1] + haClose[i-1]) / 2\<close> for every \<open>i \<ge> 1\<close>.
\<close>

theorem heikin_ashi_transform:
  assumes "df \<noteq> []"
  shows "\<exists>haOpen. HA_Open df = Inr haOpen
    \<and> length haOpen = length df \<and> length (HA_Close df) = length df
    \<and> (\<forall>i. i < length df \<longrightarrow>
          HA_Close df ! i =
            fdiv (fadd (fadd (fadd (c_open (df ! i)) (high (df ! i))) (low (df ! i))) (close (df ! i)))
              (Fin 4))
    \<and> haOpen ! 0 = fdiv (fadd (c_open (df ! 0)) (close (df ! 0))) (Fin 2)
    \<and> (\<forall>i. 1 \<le> i \<and> i < length df \<longrightarrow>
          haOpen ! i = fdiv (fadd (haOpen ! (i - 1)) (HA_Close df ! (i - 1))) (Fin 2))"
proof -
  from assms obtain c0 cs where df: "df = c0 # cs" by (cases df) auto
  then have n: "length df = Suc (length cs)" by simp
  define H where "H = fold (\<lambda>i ha_open.
                       ha_open @ [fdiv (fadd (ha_open ! (i - 1)) (HA_Close df ! (i - 1))) (Fin 2)])
                    [1..<Suc (length cs)]
                    [fdiv (fadd (c_open c0) (close c0)) (Fin 2)]"
  have H: "HA_Open df = Inr H"
    unfolding HA_Open_def H_def n [symmetric] by (simp add: df)
  from fold_append_loop [of "\<lambda>i p. fdiv (fadd p (HA_Close df ! (i - 1))) (Fin 2)"
      "length cs" "fdiv (fadd (c_open c0) (close c0)) (Fin 2)"]
  have L: "length H = Suc (length cs) \<and> H ! 0 = fdiv (fadd (c_open c0) (close c0)) (Fin 2)
    \<and> (\<forall>i. 1 \<le> i \<and> i \<le> length cs \<longrightarrow>
          H ! i = fdiv (fadd (H ! (i - 1)) (HA_Close df ! (i - 1))) (Fin 2))"
    unfolding H_def [symmetric] .
  have a: "length H = length df" using L n by simp
  have b: "length (HA_Close df) = length df" by (simp add: HA_Close_def)
  have c: "HA_Close df ! i =
            fdiv (fadd (fadd (fadd (c_open (df ! i)) (high (df ! i))) (low (df ! i))) (close (df ! i)))
              (Fin 4)" if "i < length df" for i
    using that by (simp add: HA_Close_def)
  have d: "H ! 0 = fdiv (fadd (c_open (df ! 0)) (close (df ! 0))) (Fin 2)"
    using L df by simp
  have e: "H ! i = fdiv (fadd (H ! (i - 1)) (HA_Close df ! (i - 1))) (Fin 2)"
    if "1 \<le> i" "i < length df" for i
    using L that n by simp
  show ?thesis
    using H a b c d e by blast
qed

theorem heikin_ashi_transform_witness:
  "HA_Open three_bars = Inr [Fin 1, Fin 1, Fin (3/2)]
   \<and> HA_Close three_bars = [Fin 1, Fin 2, Fin 3]"
proof -
  have ne: "three_bars \<noteq> []" by (simp add: three_bars_def)
  from heikin_ashi_transform [OF ne] obtain haOpen where
    h: "HA_Open three_bars = Inr haOpen" "length haOpen = length three_bars"
    by blast
  have "HA_Open three_bars = Inr [Fin 1, Fin 1, Fin (3/2)]"
    by (simp add: HA_Open_def HA_Close_def three_bars_def bar_def)
  moreover have "HA_Close three_bars = [Fin 1, Fin 2, Fin 3]"
    by (simp add: HA_Close_def three_bars_def bar_def)
  ultimately show ?thesis using h by simp
qed

section \<open>Signal detection\<close>

text \<open>
  C2. For every series with at least two candles (and an ATR series returned by the
  library), with \<open>n\<close> the last index, calculate_strategy reports LONG if and only if
  \<open>haClose[n] > TrailingStop[n]\<close> and \<open>haClose[n-1] \<le> TrailingStop[n-1]\<close>, SHORT if and only if
  \<open>haClose[n] < TrailingStop[n]\<close> and \<open>haClose[n-1] \<ge> TrailingStop[n-1]\<close>, and no signal
  otherwise. Only the last candle is evaluated: the scan of one symbol finds at most one
  signal.
\<close>

theorem signal_iff_crossover:
  assumes "2 \<le> length df"
    and "ta_atr (map high df) (map low df) (map close df) ATR_PERIOD = Inr atr"
    and "haClose = HA_Close df"
    and "trailingStop = TrailingStop haClose (nLoss atr (length df))"
    and "n = length df - 1"
  shows "(\<exists>sig entry sl tp. calculate_strategy ta_atr df = Inr (sig, entry, sl, tp)
     \<and> (sig = Some LONG \<longleftrightarrow>
          fgt (haClose ! n) (trailingStop ! n) \<and> fle (haClose ! (n - 1)) (trailingStop ! (n - 1)))
     \<and> (sig = Some SHORT \<longleftrightarrow>
          flt (haClose ! n) (trailingStop ! n) \<and> fge (haClose ! (n - 1)) (trailingStop ! (n - 1)))
     \<and> (sig = None \<longleftrightarrow>
          \<not> (fgt (haClose ! n) (trailingStop ! n) \<and> fle (haClose ! (n - 1)) (trailingStop ! (n - 1)))
          \<and> \<not> (flt (haClose ! n) (trailingStop ! n) \<and> fge (haClose ! (n - 1)) (trailingStop ! (n - 1)))))
     \<and> length (filter is_signal_event (scan_symbol e symbol [])) \<le> 1"
proof -
  have one: "length (filter is_signal_event (scan_symbol e symbol [])) \<le> 1"
    unfolding scan_symbol_def send_telegram_message_def
    by (auto split: sum.splits option.splits prod.splits)
  have two: "\<exists>sig entry sl tp. calculate_strategy ta_atr df = Inr (sig, entry, sl, tp)
     \<and> (sig = Some LONG \<longleftrightarrow>
          fgt (haClose ! n) (trailingStop ! n) \<and> fle (haClose ! (n - 1)) (trailingStop ! (n - 1)))
     \<and> (sig = Some SHORT \<longleftrightarrow>
          flt (haClose ! n) (trailingStop ! n) \<and> fge (haClose ! (n - 1)) (trailingStop ! (n - 1)))
     \<and> (sig = None \<longleftrightarrow>
          \<not> (fgt (haClose ! n) (trailingStop ! n) \<and> fle (haClose ! (n - 1)) (trailingStop ! (n - 1)))
          \<and> \<not> (flt (haClose ! n) (trailingStop ! n) \<and> fge (haClose ! (n - 1)) (trailingStop ! (n - 1))))"
    unfolding calculate_strategy_Inr [where df = df and ta_atr = ta_atr and atr = atr, OF assms(1,2)]
      assms(3,4,5)
    using fgt_not_flt [of "HA_Close df ! (length df - 1)"
        "TrailingStop (HA_Close df) (nLoss atr (length df)) ! (length df - 1)"]
    by (auto split: if_splits)
  from one two show ?thesis by blast
qed

theorem signal_iff_crossover_witness:
  "calculate_strategy unit_atr long_series = Inr (Some LONG, Fin 11, Fin 10, Fin 13)
   \<and> fgt (HA_Close long_series ! 99)
         (TrailingStop (HA_Close long_series) (nLoss (replicate 10 NaN @ replicate 90 (Fin 1)) 100) ! 99)
   \<and> fle (HA_Close long_series ! 98)
         (TrailingStop (HA_Close long_series) (nLoss (replicate 10 NaN @ replicate 90 (Fin 1)) 100) ! 98)"
proof -
  have l: "2 \<le> length long_series" by (simp add: length_examples)
  from signal_iff_crossover [where ta_atr = unit_atr and df = long_series,
      OF l unit_atr_100 [OF length_examples(1)] refl refl refl]
  obtain sig entry sl tp where
    r: "calculate_strategy unit_atr long_series = Inr (sig, entry, sl, tp)"
    and iff: "sig = Some LONG \<longleftrightarrow>
          fgt (HA_Close long_series ! (length long_series - 1))
            (TrailingStop (HA_Close long_series)
               (nLoss (replicate 10 NaN @ replicate 90 (Fin 1)) (length long_series))
             ! (length long_series - 1))
          \<and> fle (HA_Close long_series ! (length long_series - 1 - 1))
            (TrailingStop (HA_Close long_series)
               (nLoss (replicate 10 NaN @ replicate 90 (Fin 1)) (length long_series))
             ! (length long_series - 1 - 1))"
    by blast
  from r have "sig = Some LONG" by (simp add: calculate_strategy_long_series)
  with iff show ?thesis
    unfolding length_examples by (simp add: calculate_strategy_long_series)
qed

section \<open>Risk targets\<close>

text \<open>
  On \<open>decimal_series\<close> a LONG signal is produced with the entry price at the double
  written 15.9 and the stop loss at 15.0. The sum \<open>15.9 + 2 * (15.9 - 15.0)\<close> falls
  halfway between two doubles and is rounded up, so the take profit is
  17.700000000000003 and the ratio is not the risk-reward ratio: computed in doubles it
  is \<open>2 + 2 ^ -49\<close>.
\<close>

theorem risk_ratio_not_exact:
  "calculate_strategy unit_atr decimal_series
     = Inr (Some LONG, Fin (8950904259398861 / 2 ^ 49), Fin 15, Fin (4982107087778612 / 2 ^ 48))
   \<and> close (decimal_series ! 99) = round_double (159 / 10)
   \<and> (4982107087778612 / 2 ^ 48 - 8950904259398861 / 2 ^ 49) / (8950904259398861 / 2 ^ 49 - 15)
       \<noteq> RISK_REWARD
   \<and> fdiv (fsub (Fin (4982107087778612 / 2 ^ 48)) (Fin (8950904259398861 / 2 ^ 49)))
          (fsub (Fin (8950904259398861 / 2 ^ 49)) (Fin 15))
       = Fin (2 + 1 / 2 ^ 49)"
proof -
  have cl: "close (decimal_series ! 99) = round_double (159 / 10)"
    by (simp add: decimal_series_def nth_append)
  have ne: "(4982107087778612 / 2 ^ 48 - 8950904259398861 / 2 ^ 49) / (8950904259398861 / 2 ^ 49 - 15)
       \<noteq> RISK_REWARD"
    by (simp add: RISK_REWARD_def)
  have q: "round_double (1013309916158363 / 506654958079181) = Fin (2 + 1 / 2 ^ 49)"
  proof -
    have "round_double (1013309916158363 / 506654958079181)
        = Fin (of_int (round_half_even ((1013309916158363 / 506654958079181) / 2 powi (1 - 52)))
               * 2 powi (1 - 52))"
      by (rule round_double_eval) simp_all
    also have "(1013309916158363 / 506654958079181 :: real) / 2 powi (1 - 52)
        = 2281771080410816075213804929024 / 506654958079181"
      by (simp add: power_int_minus)
    also have "round_half_even (2281771080410816075213804929024 / 506654958079181)
        = 4503599627370500"
      by (simp add: round_half_even_def Let_def)
    finally show ?thesis by (simp add: power_int_minus)
  qed
  have d: "fdiv (fsub (Fin (4982107087778612 / 2 ^ 48)) (Fin (8950904259398861 / 2 ^ 49)))
          (fsub (Fin (8950904259398861 / 2 ^ 49)) (Fin 15))
       = Fin (2 + 1 / 2 ^ 49)"
    using q by simp
  show ?thesis using calculate_strategy_decimal_series cl ne d by blast
qed

text \<open>
  C3, as the code has it. Whenever a LONG signal is produced, the entry price is the raw
  close of the last candle, the stop loss is the minimum raw low over the last
  \<open>SL_LOOKBACK\<close> candles (the signal candle included), and the take profit is
  \<open>entryPrice + (entryPrice - stopLoss) * R\<close> computed in double arithmetic, each of
  the three operations rounded. So the ratio
  \<open>(takeProfit - entryPrice) / (entryPrice - stopLoss)\<close> equals \<open>R\<close> within floating
  tolerance: for finite values in the normal range its distance from \<open>R\<close> is at most
  \<open>2 ^ -52 * (3 + |takeProfit| / (entryPrice - stopLoss))\<close>. Mirrored for SHORT with
  the maximum raw high and \<open>takeProfit = entryPrice - (stopLoss - entryPrice) * R\<close>.
\<close>

theorem risk_targets:
  assumes "calculate_strategy ta_atr df = Inr (sig, entryPrice, stopLoss, takeProfit)"
  shows "(sig = Some LONG \<longrightarrow>
            entryPrice = close (df ! (length df - 1))
          \<and> is_minimum_of stopLoss (last_window SL_LOOKBACK (map low df))
          \<and> takeProfit = fadd entryPrice (fmul (fsub entryPrice stopLoss) (Fin RISK_REWARD))
          \<and> (\<forall>e s t. entryPrice = Fin e \<and> stopLoss = Fin s \<and> takeProfit = Fin t
                 \<and> dbl_min_normal \<le> e - s \<and> dbl_min_normal < \<bar>t\<bar> \<longrightarrow>
                \<bar>(t - e) / (e - s) - RISK_REWARD\<bar> \<le> (3 + \<bar>t\<bar> / (e - s)) * (2 * dbl_eps)))
       \<and> (sig = Some SHORT \<longrightarrow>
            entryPrice = close (df ! (length df - 1))
          \<and> is_maximum_of stopLoss (last_window SL_LOOKBACK (map high df))
          \<and> takeProfit = fsub entryPrice (fmul (fsub stopLoss entryPrice) (Fin RISK_REWARD))
          \<and> (\<forall>e s t. entryPrice = Fin e \<and> stopLoss = Fin s \<and> takeProfit = Fin t
                 \<and> dbl_min_normal \<le> s - e \<and> dbl_min_normal < \<bar>t\<bar> \<longrightarrow>
                \<bar>(e - t) / (s - e) - RISK_REWARD\<bar> \<le> (3 + \<bar>t\<bar> / (s - e)) * (2 * dbl_eps)))"
proof -
  from calculate_strategy_Inr_D [OF assms] obtain atr where
    l: "2 \<le> length df"
    and a: "ta_atr (map high df) (map low df) (map close df) ATR_PERIOD = Inr atr"
    by blast
  note eq = assms [unfolded calculate_strategy_Inr
      [where df = df and ta_atr = ta_atr and atr = atr, OF l a]]
  have long: "entryPrice = close (df ! (length df - 1))
      \<and> stopLoss = pd_min (drop (length df - SL_LOOKBACK) (map low df))
      \<and> takeProfit = fadd entryPrice (fmul (fsub entryPrice stopLoss) (Fin RISK_REWARD))"
    if "sig = Some LONG"
    using eq that by (auto split: if_splits)
  have short: "entryPrice = close (df ! (length df - 1))
      \<and> stopLoss = pd_max (drop (length df - SL_LOOKBACK) (map high df))
      \<and> takeProfit = fsub entryPrice (fmul (fsub stopLoss entryPrice) (Fin RISK_REWARD))"
    if "sig = Some SHORT"
    using eq that by (auto split: if_splits)
  have wl: "drop (length df - SL_LOOKBACK) (map low df) = last_window SL_LOOKBACK (map low df)"
    using drop_last_window [of "map low df" SL_LOOKBACK] by simp
  have wh: "drop (length df - SL_LOOKBACK) (map high df) = last_window SL_LOOKBACK (map high df)"
    using drop_last_window [of "map high df" SL_LOOKBACK] by simp
  show ?thesis
  proof (intro conjI impI allI)
    assume s: "sig = Some LONG"
    show "entryPrice = close (df ! (length df - 1))" using long [OF s] by simp
    show "is_minimum_of stopLoss (last_window SL_LOOKBACK (map low df))"
      using long [OF s] pd_min_is_minimum [of "drop (length df - SL_LOOKBACK) (map low df)"]
      unfolding wl by simp
    show tp: "takeProfit = fadd entryPrice (fmul (fsub entryPrice stopLoss) (Fin RISK_REWARD))"
      using long [OF s] by simp
    fix e s' t
    assume h: "entryPrice = Fin e \<and> stopLoss = Fin s' \<and> takeProfit = Fin t
                 \<and> dbl_min_normal \<le> e - s' \<and> dbl_min_normal < \<bar>t\<bar>"
    then have v: "entryPrice = Fin e" "stopLoss = Fin s'" "takeProfit = Fin t"
      and b: "dbl_min_normal \<le> e - s'" "dbl_min_normal < \<bar>t\<bar>" by blast+
    have "Fin t = fadd (Fin e) (fmul (fsub (Fin e) (Fin s')) (Fin RISK_REWARD))"
      using tp unfolding v .
    then show "\<bar>(t - e) / (e - s') - RISK_REWARD\<bar> \<le> (3 + \<bar>t\<bar> / (e - s')) * (2 * dbl_eps)"
      using b by (rule take_profit_long_tolerance)
  next
    assume s: "sig = Some SHORT"
    show "entryPrice = close (df ! (length df - 1))" using short [OF s] by simp
    show "is_maximum_of stopLoss (last_window SL_LOOKBACK (map high df))"
      using short [OF s] pd_max_is_maximum [of "drop (length df - SL_LOOKBACK) (map high df)"]
      unfolding wh by simp
    show tp: "takeProfit = fsub entryPrice (fmul (fsub stopLoss entryPrice) (Fin RISK_REWARD))"
      using short [OF s] by simp
    fix e s' t
    assume h: "entryPrice = Fin e \<and> stopLoss = Fin s' \<and> takeProfit = Fin t
                 \<and> dbl_min_normal \<le> s' - e \<and> dbl_min_normal < \<bar>t\<bar>"
    then have v: "entryPrice = Fin e" "stopLoss = Fin s'" "takeProfit = Fin t"
      and b: "dbl_min_normal \<le> s' - e" "dbl_min_normal < \<bar>t\<bar>" by blast+
    have "Fin t = fsub (Fin e) (fmul (fsub (Fin s') (Fin e)) (Fin RISK_REWARD))"
      using tp unfolding v .
    then show "\<bar>(e - t) / (s' - e) - RISK_REWARD\<bar> \<le> (3 + \<bar>t\<bar> / (s' - e)) * (2 * dbl_eps)"
      using b by (rule take_profit_short_tolerance)
  qed
qed

theorem risk_targets_witness:
  "calculate_strategy unit_atr decimal_series
     = Inr (Some LONG, Fin (8950904259398861 / 2 ^ 49), Fin 15, Fin (4982107087778612 / 2 ^ 48))
   \<and> is_minimum_of (Fin 15) (last_window SL_LOOKBACK (map low decimal_series))
   \<and> \<bar>(4982107087778612 / 2 ^ 48 - 8950904259398861 / 2 ^ 49) / (8950904259398861 / 2 ^ 49 - 15)
        - RISK_REWARD\<bar>
       \<le> (3 + \<bar>4982107087778612 / 2 ^ 48\<bar> / (8950904259398861 / 2 ^ 49 - 15)) * (2 * dbl_eps)
   \<and> calculate_strategy unit_atr short_series = Inr (Some SHORT, Fin 9, Fin 13, Fin 1)
   \<and> is_maximum_of (Fin 13) (last_window SL_LOOKBACK (map high short_series))
   \<and> \<bar>(9 - 1) / (13 - 9) - RISK_REWARD\<bar> \<le> (3 + \<bar>1\<bar> / (13 - 9)) * (2 * dbl_eps)"
proof -
  note L = risk_targets [OF calculate_strategy_decimal_series]
  note S = risk_targets [OF calculate_strategy_short_series]
  have m1: "dbl_min_normal \<le> 8950904259398861 / 2 ^ 49 - 15"
    "dbl_min_normal < \<bar>4982107087778612 / 2 ^ 48\<bar>"
    "dbl_min_normal \<le> 13 - 9" "dbl_min_normal < \<bar>1\<bar>"
    using dbl_min_normal_small by simp_all
  have l2: "is_minimum_of (Fin 15) (last_window SL_LOOKBACK (map low decimal_series))"
    using L by blast
  have "\<forall>e s t. Fin (8950904259398861 / 2 ^ 49) = Fin e \<and> Fin 15 = Fin s
          \<and> Fin (4982107087778612 / 2 ^ 48) = Fin t
          \<and> dbl_min_normal \<le> e - s \<and> dbl_min_normal < \<bar>t\<bar> \<longrightarrow>
          \<bar>(t - e) / (e - s) - RISK_REWARD\<bar> \<le> (3 + \<bar>t\<bar> / (e - s)) * (2 * dbl_eps)"
    using L by blast
  from this [rule_format, of "8950904259398861 / 2 ^ 49" 15 "4982107087778612 / 2 ^ 48"]
  have l3: "\<bar>(4982107087778612 / 2 ^ 48 - 8950904259398861 / 2 ^ 49) / (8950904259398861 / 2 ^ 49 - 15)
        - RISK_REWARD\<bar>
       \<le> (3 + \<bar>4982107087778612 / 2 ^ 48\<bar> / (8950904259398861 / 2 ^ 49 - 15)) * (2 * dbl_eps)"
    using m1(1,2) by blast
  have s2: "is_maximum_of (Fin 13) (last_window SL_LOOKBACK (map high short_series))"
    using S by blast
  have "\<forall>e s t. Fin 9 = Fin e \<and> Fin 13 = Fin s \<and> Fin 1 = Fin t
          \<and> dbl_min_normal \<le> s - e \<and> dbl_min_normal < \<bar>t\<bar> \<longrightarrow>
          \<bar>(e - t) / (s - e) - RISK_REWARD\<bar> \<le> (3 + \<bar>t\<bar> / (s - e)) * (2 * dbl_eps)"
    using S by blast
  from this [rule_format, of 9 13 1]
  have s3: "\<bar>(9 - 1) / (13 - 9) - RISK_REWARD\<bar> \<le> (3 + \<bar>1\<bar> / (13 - 9)) * (2 * dbl_eps)"
    using m1(3,4) by blast
  show ?thesis
    using l2 l3 s2 s3 calculate_strategy_decimal_series calculate_strategy_short_series
    by blast
qed

section \<open>No crossover\<close>

text \<open>
  C10. For every series on which no crossover is detected, calculate_strategy returns
  \<open>(None, entryPrice, 0.0, 0.0)\<close>: no signal, the raw close of the last candle as entry
  price, and the placeholder 0.0 for stop loss and take profit.
\<close>

theorem no_crossover_result:
  assumes "2 \<le> length df"
    and "ta_atr (map high df) (map low df) (map close df) ATR_PERIOD = Inr atr"
    and "haClose = HA_Close df"
    and "trailingStop = TrailingStop haClose (nLoss atr (length df))"
    and "n = length df - 1"
    and "\<not> (fgt (haClose ! n) (trailingStop ! n) \<and> fle (haClose ! (n - 1)) (trailingStop ! (n - 1)))"
    and "\<not> (flt (haClose ! n) (trailingStop ! n) \<and> fge (haClose ! (n - 1)) (trailingStop ! (n - 1)))"
  shows "calculate_strategy ta_atr df = Inr (None, close (df ! n), Fin 0, Fin 0)"
  unfolding calculate_strategy_Inr [where df = df and ta_atr = ta_atr and atr = atr, OF assms(1,2)]
  using assms(6,7) unfolding assms(3,4,5)
  by (simp only: if_False)

theorem no_crossover_result_witness:
  "calculate_strategy unit_atr flat_series = Inr (None, Fin 12, Fin 0, Fin 0)"
proof -
  have l: "2 \<le> length flat_series" by (simp add: length_examples)
  have c1: "\<not> (fgt (HA_Close flat_series ! (length flat_series - 1))
               (TrailingStop (HA_Close flat_series)
                  (nLoss (replicate 10 NaN @ replicate 90 (Fin 1)) (length flat_series))
                ! (length flat_series - 1))
            \<and> fle (HA_Close flat_series ! (length flat_series - 1 - 1))
               (TrailingStop (HA_Close flat_series)
                  (nLoss (replicate 10 NaN @ replicate 90 (Fin 1)) (length flat_series))
                ! (length flat_series - 1 - 1)))"
    unfolding length_examples nLoss_unit by (simp add: last_two_flat)
  have c2: "\<not> (flt (HA_Close flat_series ! (length flat_series - 1))
               (TrailingStop (HA_Close flat_series)
                  (nLoss (replicate 10 NaN @ replicate 90 (Fin 1)) (length flat_series))
                ! (length flat_series - 1))
            \<and> fge (HA_Close flat_series ! (length flat_series - 1 - 1))
               (TrailingStop (HA_Close flat_series)
                  (nLoss (replicate 10 NaN @ replicate 90 (Fin 1)) (length flat_series))
                ! (length flat_series - 1 - 1)))"
    unfolding length_examples nLoss_unit by (simp add: last_two_flat)
  have cl: "close (flat_series ! (length flat_series - 1)) = Fin 12"
    by (simp add: flat_series_def bar_def)
  from no_crossover_result [where ta_atr = unit_atr and df = flat_series,
      OF l unit_atr_100 [OF length_examples(4)] refl refl refl c1 c2]
  show ?thesis unfolding cl .
qed

section \<open>Degenerate risk\<close>

text \<open>
  The function has no test on the sign of the risk. On \<open>zero_risk_series\<close> the last
  candle closes on the lowest low of the window: a LONG signal is returned with stop loss
  equal to the entry price (risk 0), and the scan dispatches its alert.
\<close>

theorem degenerate_risk_not_suppressed:
  "calculate_strategy unit_atr zero_risk_series = Inr (Some LONG, Fin 10, Fin 10, Fin 10)
   \<and> fsub (Fin 10) (Fin 10) = Fin 0
   \<and> scan_symbol zero_risk_env ''AAA/USDT'' []
       = [SignalFound ''AAA/USDT'',
          Sent \<lparr>a_symbol = ''AAA/USDT'', a_signal = LONG, a_entry = Fin 10,
                a_stop_loss = Fin 10, a_take_profit = Fin 10\<rparr>]"
proof -
  have "\<not> length zero_risk_series < LIMIT" by (simp add: length_examples LIMIT_def)
  then show ?thesis
    by (simp add: calculate_strategy_zero_risk_series scan_symbol_def zero_risk_env_def
        send_telegram_message_def)
qed

text \<open>
  C4, as the code has it. A signal whose computed risk is not positive is not suppressed:
  when the LONG crossover holds and the stop loss is at or above the entry price,
  calculate_strategy still returns LONG with that entry, that stop loss and the take
  profit of the usual formula, and the scan of a symbol with such a series of at least
  \<open>LIMIT\<close> candles logs the signal and dispatches its alert. Mirrored for SHORT with the
  stop loss at or below the entry price.
\<close>

theorem degenerate_signal_returned:
  assumes "2 \<le> length df"
    and "ta_atr (map high df) (map low df) (map close df) ATR_PERIOD = Inr atr"
    and "haClose = HA_Close df"
    and "trailingStop = TrailingStop haClose (nLoss atr (length df))"
    and "n = length df - 1"
    and "entryPrice = close (df ! n)"
  shows "(fgt (haClose ! n) (trailingStop ! n) \<and> fle (haClose ! (n - 1)) (trailingStop ! (n - 1))
          \<and> stopLoss = pd_min (drop (length df - SL_LOOKBACK) (map low df))
          \<and> fge stopLoss entryPrice
          \<and> takeProfit = fadd entryPrice (fmul (fsub entryPrice stopLoss) (Fin RISK_REWARD))
          \<and> msg = \<lparr>a_symbol = symbol, a_signal = LONG, a_entry = entryPrice,
                    a_stop_loss = stopLoss, a_take_profit = takeProfit\<rparr>
          \<longrightarrow> calculate_strategy ta_atr df = Inr (Some LONG, entryPrice, stopLoss, takeProfit)
              \<and> (fetch_ohlcv e symbol = Inr df \<and> LIMIT \<le> length df \<and> pandas_ta_atr e = ta_atr
                   \<longrightarrow> scan_symbol e symbol []
                        = [SignalFound symbol,
                           if bot_send e msg then Sent msg else TelegramError msg]))
       \<and> (flt (haClose ! n) (trailingStop ! n) \<and> fge (haClose ! (n - 1)) (trailingStop ! (n - 1))
          \<and> stopLoss = pd_max (drop (length df - SL_LOOKBACK) (map high df))
          \<and> fle stopLoss entryPrice
          \<and> takeProfit = fsub entryPrice (fmul (fsub stopLoss entryPrice) (Fin RISK_REWARD))
          \<and> msg = \<lparr>a_symbol = symbol, a_signal = SHORT, a_entry = entryPrice,
                    a_stop_loss = stopLoss, a_take_profit = takeProfit\<rparr>
          \<longrightarrow> calculate_strategy ta_atr df = Inr (Some SHORT, entryPrice, stopLoss, takeProfit)
              \<and> (fetch_ohlcv e symbol = Inr df \<and> LIMIT \<le> length df \<and> pandas_ta_atr e = ta_atr
                   \<longrightarrow> scan_symbol e symbol []
                        = [SignalFound symbol,
                           if bot_send e msg then Sent msg else TelegramError msg]))"
proof -
  note cs = calculate_strategy_Inr [where df = df and ta_atr = ta_atr and atr = atr, OF assms(1,2)]
  have scan: "scan_symbol e symbol []
      = [SignalFound symbol,
         if bot_send e \<lparr>a_symbol = symbol, a_signal = sg, a_entry = en,
                         a_stop_loss = sl, a_take_profit = tp\<rparr>
         then Sent \<lparr>a_symbol = symbol, a_signal = sg, a_entry = en,
                     a_stop_loss = sl, a_take_profit = tp\<rparr>
         else TelegramError \<lparr>a_symbol = symbol, a_signal = sg, a_entry = en,
                     a_stop_loss = sl, a_take_profit = tp\<rparr>]"
    if "calculate_strategy ta_atr df = Inr (Some sg, en, sl, tp)"
      "fetch_ohlcv e symbol = Inr df \<and> LIMIT \<le> length df \<and> pandas_ta_atr e = ta_atr"
    for sg en sl tp
    using that by (simp add: scan_symbol_def send_telegram_message_def)
  have long: "calculate_strategy ta_atr df = Inr (Some LONG, entryPrice, stopLoss, takeProfit)"
    if "fgt (haClose ! n) (trailingStop ! n) \<and> fle (haClose ! (n - 1)) (trailingStop ! (n - 1))"
      "stopLoss = pd_min (drop (length df - SL_LOOKBACK) (map low df))"
      "takeProfit = fadd entryPrice (fmul (fsub entryPrice stopLoss) (Fin RISK_REWARD))"
    unfolding cs using that unfolding assms(3,4,5,6) by simp
  have short: "calculate_strategy ta_atr df = Inr (Some SHORT, entryPrice, stopLoss, takeProfit)"
    if "flt (haClose ! n) (trailingStop ! n) \<and> fge (haClose ! (n - 1)) (trailingStop ! (n - 1))"
      "stopLoss = pd_max (drop (length df - SL_LOOKBACK) (map high df))"
      "takeProfit = fsub entryPrice (fmul (fsub stopLoss entryPrice) (Fin RISK_REWARD))"
    unfolding cs using that
      fgt_not_flt [of "HA_Close df ! (length df - 1)"
        "TrailingStop (HA_Close df) (nLoss atr (length df)) ! (length df - 1)"]
    unfolding assms(3,4,5,6) by auto
  show ?thesis
  proof (intro conjI impI)
    assume h: "fgt (haClose ! n) (trailingStop ! n) \<and> fle (haClose ! (n - 1)) (trailingStop ! (n - 1))
          \<and> stopLoss = pd_min (drop (length df - SL_LOOKBACK) (map low df))
          \<and> fge stopLoss entryPrice
          \<and> takeProfit = fadd entryPrice (fmul (fsub entryPrice stopLoss) (Fin RISK_REWARD))
          \<and> msg = \<lparr>a_symbol = symbol, a_signal = LONG, a_entry = entryPrice,
                    a_stop_loss = stopLoss, a_take_profit = takeProfit\<rparr>"
    then show r: "calculate_strategy ta_atr df = Inr (Some LONG, entryPrice, stopLoss, takeProfit)"
      using long by blast
    assume "fetch_ohlcv e symbol = Inr df \<and> LIMIT \<le> length df \<and> pandas_ta_atr e = ta_atr"
    from scan [OF r this] h
    show "scan_symbol e symbol []
        = [SignalFound symbol, if bot_send e msg then Sent msg else TelegramError msg]"
      by simp
  next
    assume h: "flt (haClose ! n) (trailingStop ! n) \<and> fge (haClose ! (n - 1)) (trailingStop ! (n - 1))
          \<and> stopLoss = pd_max (drop (length df - SL_LOOKBACK) (map high df))
          \<and> fle stopLoss entryPrice
          \<and> takeProfit = fsub entryPrice (fmul (fsub stopLoss entryPrice) (Fin RISK_REWARD))
          \<and> msg = \<lparr>a_symbol = symbol, a_signal = SHORT, a_entry = entryPrice,
                    a_stop_loss = stopLoss, a_take_profit = takeProfit\<rparr>"
    then show r: "calculate_strategy ta_atr df = Inr (Some SHORT, entryPrice, stopLoss, takeProfit)"
      using short by blast
    assume "fetch_ohlcv e symbol = Inr df \<and> LIMIT \<le> length df \<and> pandas_ta_atr e = ta_atr"
    from scan [OF r this] h
    show "scan_symbol e symbol []
        = [SignalFound symbol, if bot_send e msg then Sent msg else TelegramError msg]"
      by simp
  qed
qed

theorem degenerate_signal_returned_witness:
  "fge (Fin 10) (close (zero_risk_series ! 99))
   \<and> scan_symbol zero_risk_env ''AAA/USDT'' []
       = [SignalFound ''AAA/USDT'',
          Sent \<lparr>a_symbol = ''AAA/USDT'', a_signal = LONG, a_entry = Fin 10,
                a_stop_loss = Fin 10, a_take_profit = Fin 10\<rparr>]"
proof -
  have l: "2 \<le> length zero_risk_series" by (simp add: length_examples)
  have cl: "close (zero_risk_series ! (length zero_risk_series - 1)) = Fin 10"
    by (simp add: zero_risk_series_def nth_append length_falling_then_flat bar_def)
  have "drop 90 (map low zero_risk_series) = replicate 9 (Fin 10) @ [Fin 10]"
    by (simp add: zero_risk_series_def falling_then_flat_def bar_def)
  then have lows: "pd_min (drop (length zero_risk_series - SL_LOOKBACK) (map low zero_risk_series))
      = Fin 10"
    by (simp add: pd_min_def drop_nan_def eval_nat_numeral length_examples SL_LOOKBACK_def)
  have cross: "fgt (HA_Close zero_risk_series ! (length zero_risk_series - 1))
               (TrailingStop (HA_Close zero_risk_series)
                  (nLoss (replicate 10 NaN @ replicate 90 (Fin 1)) (length zero_risk_series))
                ! (length zero_risk_series - 1))
            \<and> fle (HA_Close zero_risk_series ! (length zero_risk_series - 1 - 1))
               (TrailingStop (HA_Close zero_risk_series)
                  (nLoss (replicate 10 NaN @ replicate 90 (Fin 1)) (length zero_risk_series))
                ! (length zero_risk_series - 1 - 1))"
    unfolding length_examples nLoss_unit HA_Close_zero_risk_series by (simp add: last_two_long)
  have tp: "Fin 10 = fadd (Fin 10) (fmul (fsub (Fin 10) (Fin 10)) (Fin RISK_REWARD))"
    by (simp add: RISK_REWARD_def)
  have env: "fetch_ohlcv zero_risk_env ''AAA/USDT'' = Inr zero_risk_series
      \<and> LIMIT \<le> length zero_risk_series \<and> pandas_ta_atr zero_risk_env = unit_atr"
    by (simp add: zero_risk_env_def length_examples LIMIT_def)
  have bs: "bot_send zero_risk_env m" for m by (simp add: zero_risk_env_def)
  note T = degenerate_signal_returned [where ta_atr = unit_atr and df = zero_risk_series
      and stopLoss = "Fin 10" and takeProfit = "Fin 10" and symbol = "''AAA/USDT''"
      and e = zero_risk_env
      and msg = "\<lparr>a_symbol = ''AAA/USDT'', a_signal = LONG, a_entry = Fin 10,
                a_stop_loss = Fin 10, a_take_profit = Fin 10\<rparr>",
      OF l unit_atr_100 [OF length_examples(2)] refl refl refl refl, unfolded cl lows]
  have ge: "fge (Fin 10) (Fin 10)" by simp
  have "scan_symbol zero_risk_env ''AAA/USDT'' []
       = [SignalFound ''AAA/USDT'',
          if bot_send zero_risk_env \<lparr>a_symbol = ''AAA/USDT'', a_signal = LONG, a_entry = Fin 10,
                a_stop_loss = Fin 10, a_take_profit = Fin 10\<rparr>
          then Sent \<lparr>a_symbol = ''AAA/USDT'', a_signal = LONG, a_entry = Fin 10,
                a_stop_loss = Fin 10, a_take_profit = Fin 10\<rparr>
          else TelegramError \<lparr>a_symbol = ''AAA/USDT'', a_signal = LONG, a_entry = Fin 10,
                a_stop_loss = Fin 10, a_take_profit = Fin 10\<rparr>]"
    using T cross tp env ge by blast
  then show ?thesis using bs cl by (simp add: length_examples)
qed

section \<open>Undefined loss\<close>

text \<open>
  The function has no guard on an undefined loss. On \<open>zero_open_series\<close> the first candle
  is quoted at 0, so at index 1 the price is above the seed and the previous price is
  not: the third branch stores \<open>price - NaN\<close> in the trailing-stop column.
\<close>

theorem undefined_loss_reaches_stop:
  "nLoss (replicate 10 NaN @ replicate 90 (Fin 1)) 100 ! 1 = NaN
   \<and> TrailingStop (HA_Close zero_open_series)
        (nLoss (replicate 10 NaN @ replicate 90 (Fin 1)) 100) ! 1 = NaN
   \<and> fgt (HA_Close zero_open_series ! 1) (Fin 0)"
proof -
  have len: "length (HA_Close zero_open_series) = 100"
    by (simp add: HA_Close_def zero_open_series_def)
  have n1: "nLoss (replicate 10 NaN @ replicate 90 (Fin 1)) 100 ! 1 = NaN"
    unfolding nLoss_unit by (simp add: nth_append)
  have ne: "HA_Close zero_open_series \<noteq> []" using len by auto
  have i: "(1::nat) \<le> 1" "1 < length (HA_Close zero_open_series)" using len by simp_all
  have t0: "TrailingStop (HA_Close zero_open_series)
        (nLoss (replicate 10 NaN @ replicate 90 (Fin 1)) 100) ! (1 - 1) = Fin 0"
    using TrailingStop_0 [OF ne] by simp
  have "TrailingStop (HA_Close zero_open_series)
        (nLoss (replicate 10 NaN @ replicate 90 (Fin 1)) 100) ! 1 = NaN"
    unfolding TrailingStop_nth [OF i] t0 n1
    by (simp add: HA_Close_zero_open_series stop_rule_NaN)
  then show ?thesis using n1 by (simp add: HA_Close_zero_open_series)
qed

text \<open>
  C6, as the code has it. At an index \<open>i \<ge> 1\<close> whose loss is undefined the update still
  runs: the stop keeps the previous value when price and previous price are both above,
  or both below, the previous stop, and becomes \<open>NaN\<close> otherwise. While the loss is
  undefined and the Heikin Ashi closes are positive, the stop stays at the seed 0.0. And
  when the loss at the last index is undefined, calculate_strategy returns no signal.
\<close>

theorem undefined_loss_behaviour:
  assumes "haClose = HA_Close df"
    and "loss = nLoss atr (length df)"
    and "trailingStop = TrailingStop haClose loss"
  shows "(\<forall>i. 1 \<le> i \<and> i < length df \<and> loss ! i = NaN \<longrightarrow>
            trailingStop ! i =
              (if (fgt (haClose ! i) (trailingStop ! (i - 1))
                     \<and> fgt (haClose ! (i - 1)) (trailingStop ! (i - 1)))
                  \<or> (flt (haClose ! i) (trailingStop ! (i - 1))
                     \<and> flt (haClose ! (i - 1)) (trailingStop ! (i - 1)))
               then trailingStop ! (i - 1) else NaN))
       \<and> (\<forall>i. i < length df \<and> (\<forall>j. 1 \<le> j \<and> j \<le> i \<longrightarrow> loss ! j = NaN)
              \<and> (\<forall>j. j \<le> i \<longrightarrow> fgt (haClose ! j) (Fin 0))
            \<longrightarrow> trailingStop ! i = Fin 0)
       \<and> (2 \<le> length df
            \<and> ta_atr (map high df) (map low df) (map close df) ATR_PERIOD = Inr atr
            \<and> loss ! (length df - 1) = NaN
          \<longrightarrow> calculate_strategy ta_atr df
                = Inr (None, close (df ! (length df - 1)), Fin 0, Fin 0))"
proof -
  have len: "length haClose = length df" using assms(1) by (simp add: HA_Close_def)
  have step: "trailingStop ! i =
              (if (fgt (haClose ! i) (trailingStop ! (i - 1))
                     \<and> fgt (haClose ! (i - 1)) (trailingStop ! (i - 1)))
                  \<or> (flt (haClose ! i) (trailingStop ! (i - 1))
                     \<and> flt (haClose ! (i - 1)) (trailingStop ! (i - 1)))
               then trailingStop ! (i - 1) else NaN)"
    if "1 \<le> i" "i < length df" "loss ! i = NaN" for i
  proof -
    have "trailingStop ! i
        = stop_rule (trailingStop ! (i - 1)) (haClose ! i) (haClose ! (i - 1)) (loss ! i)"
      unfolding assms(3) using TrailingStop_nth [of i haClose loss] that(1,2) len by simp
    then show ?thesis unfolding that(3) stop_rule_NaN .
  qed
  have seed: "trailingStop ! i = Fin 0"
    if "i < length df" "\<forall>j. 1 \<le> j \<and> j \<le> i \<longrightarrow> loss ! j = NaN"
      "\<forall>j. j \<le> i \<longrightarrow> fgt (haClose ! j) (Fin 0)" for i
    unfolding assms(3) using seed_kept [of i haClose loss] that len by simp
  have nosig: "calculate_strategy ta_atr df
                = Inr (None, close (df ! (length df - 1)), Fin 0, Fin 0)"
    if l: "2 \<le> length df"
      and a: "ta_atr (map high df) (map low df) (map close df) ATR_PERIOD = Inr atr"
      and n: "loss ! (length df - 1) = NaN"
  proof -
    define k where "k = length df - 1"
    have k: "1 \<le> k" "k < length df" using l unfolding k_def by simp_all
    note s = step [OF k n [folded k_def]]
    have nolong: "\<not> (fgt (haClose ! k) (trailingStop ! k)
                     \<and> fle (haClose ! (k - 1)) (trailingStop ! (k - 1)))"
    proof
      assume c: "fgt (haClose ! k) (trailingStop ! k)
                     \<and> fle (haClose ! (k - 1)) (trailingStop ! (k - 1))"
      then have "\<not> fgt (haClose ! (k - 1)) (trailingStop ! (k - 1))"
        using fgt_fle_contra by blast
      moreover have "trailingStop ! k \<noteq> NaN" using c by auto
      ultimately have "flt (haClose ! k) (trailingStop ! (k - 1))" "trailingStop ! k = trailingStop ! (k - 1)"
        using s by (auto split: if_splits)
      then show False using c fgt_not_flt by auto
    qed
    have noshort: "\<not> (flt (haClose ! k) (trailingStop ! k)
                     \<and> fge (haClose ! (k - 1)) (trailingStop ! (k - 1)))"
    proof
      assume c: "flt (haClose ! k) (trailingStop ! k)
                     \<and> fge (haClose ! (k - 1)) (trailingStop ! (k - 1))"
      then have "\<not> flt (haClose ! (k - 1)) (trailingStop ! (k - 1))"
        using flt_fge_contra by blast
      moreover have "trailingStop ! k \<noteq> NaN" using c by auto
      ultimately have "fgt (haClose ! k) (trailingStop ! (k - 1))" "trailingStop ! k = trailingStop ! (k - 1)"
        using s by (auto split: if_splits)
      then show False using c fgt_not_flt by auto
    qed
    show ?thesis
      unfolding calculate_strategy_Inr [where df = df and ta_atr = ta_atr and atr = atr, OF l a]
      using nolong noshort unfolding k_def assms(1,2,3)
      by (simp only: if_False)
  qed
  show ?thesis
  proof (intro conjI allI impI)
    fix i assume "1 \<le> i \<and> i < length df \<and> loss ! i = NaN"
    then show "trailingStop ! i =
              (if (fgt (haClose ! i) (trailingStop ! (i - 1))
                     \<and> fgt (haClose ! (i - 1)) (trailingStop ! (i - 1)))
                  \<or> (flt (haClose ! i) (trailingStop ! (i - 1))
                     \<and> flt (haClose ! (i - 1)) (trailingStop ! (i - 1)))
               then trailingStop ! (i - 1) else NaN)"
      using step [of i] by blast
  next
    fix i assume "i < length df \<and> (\<forall>j. 1 \<le> j \<and> j \<le> i \<longrightarrow> loss ! j = NaN)
              \<and> (\<forall>j. j \<le> i \<longrightarrow> fgt (haClose ! j) (Fin 0))"
    then show "trailingStop ! i = Fin 0" using seed [of i] by blast
  next
    assume "2 \<le> length df
            \<and> ta_atr (map high df) (map low df) (map close df) ATR_PERIOD = Inr atr
            \<and> loss ! (length df - 1) = NaN"
    then show "calculate_strategy ta_atr df
                = Inr (None, close (df ! (length df - 1)), Fin 0, Fin 0)"
      using nosig by blast
  qed
qed

theorem undefined_loss_behaviour_witness:
  "TrailingStop (HA_Close three_bars) (nLoss (replicate 10 NaN) (length three_bars)) ! 2 = Fin 0
   \<and> calculate_strategy unit_atr three_bars = Inr (None, Fin 3, Fin 0, Fin 0)"
proof -
  have len: "length three_bars = 3" by (simp add: three_bars_def)
  have ha: "HA_Close three_bars = [Fin 1, Fin 2, Fin 3]"
    by (simp add: HA_Close_def three_bars_def bar_def)
  have nl: "nLoss (replicate 10 NaN) 3 = [NaN, NaN, NaN]"
    by (simp add: nLoss_def upt_rec)
  have atr: "unit_atr (map high three_bars) (map low three_bars) (map close three_bars) ATR_PERIOD
      = Inr (replicate 10 NaN)"
    by (simp add: unit_atr_def ATR_PERIOD_def len)
  have cl: "close (three_bars ! (length three_bars - 1)) = Fin 3"
    by (simp add: three_bars_def bar_def)
  note T = undefined_loss_behaviour [where df = three_bars and atr = "replicate 10 NaN"
      and ta_atr = unit_atr, OF refl refl refl]
  have "2 < length three_bars
      \<and> (\<forall>j. 1 \<le> j \<and> j \<le> 2 \<longrightarrow> nLoss (replicate 10 NaN) (length three_bars) ! j = NaN)
      \<and> (\<forall>j. j \<le> 2 \<longrightarrow> fgt (HA_Close three_bars ! j) (Fin 0))"
    unfolding len nl ha by (auto simp: nth_Cons split: nat.splits)
  then have a: "TrailingStop (HA_Close three_bars) (nLoss (replicate 10 NaN) (length three_bars)) ! 2
      = Fin 0"
    using T by blast
  have "2 \<le> length three_bars
      \<and> unit_atr (map high three_bars) (map low three_bars) (map close three_bars) ATR_PERIOD
          = Inr (replicate 10 NaN)
      \<and> nLoss (replicate 10 NaN) (length three_bars) ! (length three_bars - 1) = NaN"
    using atr unfolding len nl by simp
  then have b: "calculate_strategy unit_atr three_bars
      = Inr (None, close (three_bars ! (length three_bars - 1)), Fin 0, Fin 0)"
    using T by blast
  show ?thesis using a b unfolding cl by simp
qed

section \<open>Scan orchestration\<close>

text \<open>
  C8. The scan handles the candidates one after the other, in ranking order, and its
  trace is the concatenation of what each symbol contributes on its own. A symbol whose
  retrieval fails, or whose strategy computation fails, contributes one error line; a
  symbol whose series is shorter than \<open>LIMIT\<close> contributes nothing; a symbol with a
  signal contributes the signal and the outcome of its dispatch, delivered or failed.
  Whatever one symbol does, the symbols before and after it contribute the same, and the
  scan reaches its end.
\<close>

theorem scan_isolates_failures:
  "run_scanner e
     = ScanStart (get_top_gainers (fetch_tickers e))
       # concat (map (\<lambda>s. scan_symbol e s []) (get_top_gainers (fetch_tickers e)))
       @ [ScanComplete]
   \<and> fold (scan_symbol e) (pre @ symbol # post) out
     = fold (scan_symbol e) pre out @ scan_symbol e symbol []
       @ concat (map (\<lambda>s. scan_symbol e s []) post)
   \<and> (fetch_ohlcv e symbol = Inl err \<longrightarrow> scan_symbol e symbol [] = [AnalyzeError symbol err])
   \<and> (fetch_ohlcv e symbol = Inr df \<and> length df < LIMIT \<longrightarrow> scan_symbol e symbol [] = [])
   \<and> (fetch_ohlcv e symbol = Inr df \<and> LIMIT \<le> length df
        \<and> calculate_strategy (pandas_ta_atr e) df = Inl err
      \<longrightarrow> scan_symbol e symbol [] = [AnalyzeError symbol err])
   \<and> (fetch_ohlcv e symbol = Inr df \<and> LIMIT \<le> length df
        \<and> calculate_strategy (pandas_ta_atr e) df = Inr (None, entry, sl, tp)
      \<longrightarrow> scan_symbol e symbol [] = [])
   \<and> (fetch_ohlcv e symbol = Inr df \<and> LIMIT \<le> length df
        \<and> calculate_strategy (pandas_ta_atr e) df = Inr (Some sg, entry, sl, tp)
        \<and> msg = \<lparr>a_symbol = symbol, a_signal = sg, a_entry = entry,
                  a_stop_loss = sl, a_take_profit = tp\<rparr>
      \<longrightarrow> scan_symbol e symbol []
            = [SignalFound symbol, if bot_send e msg then Sent msg else TelegramError msg])"
proof -
  have a: "run_scanner e
     = ScanStart (get_top_gainers (fetch_tickers e))
       # concat (map (\<lambda>s. scan_symbol e s []) (get_top_gainers (fetch_tickers e)))
       @ [ScanComplete]"
    unfolding run_scanner_def Let_def fold_scan_symbol by simp
  have b: "fold (scan_symbol e) (pre @ symbol # post) out
     = fold (scan_symbol e) pre out @ scan_symbol e symbol []
       @ concat (map (\<lambda>s. scan_symbol e s []) post)"
    unfolding fold_scan_symbol by simp
  have c: "fetch_ohlcv e symbol = Inl err \<Longrightarrow> scan_symbol e symbol [] = [AnalyzeError symbol err]"
    by (simp add: scan_symbol_def)
  have d: "fetch_ohlcv e symbol = Inr df \<and> length df < LIMIT \<Longrightarrow> scan_symbol e symbol [] = []"
    by (simp add: scan_symbol_def)
  have f: "fetch_ohlcv e symbol = Inr df \<and> LIMIT \<le> length df
        \<and> calculate_strategy (pandas_ta_atr e) df = Inl err
      \<Longrightarrow> scan_symbol e symbol [] = [AnalyzeError symbol err]"
    by (simp add: scan_symbol_def)
  have g: "fetch_ohlcv e symbol = Inr df \<and> LIMIT \<le> length df
        \<and> calculate_strategy (pandas_ta_atr e) df = Inr (None, entry, sl, tp)
      \<Longrightarrow> scan_symbol e symbol [] = []"
    by (simp add: scan_symbol_def)
  have h: "fetch_ohlcv e symbol = Inr df \<and> LIMIT \<le> length df
        \<and> calculate_strategy (pandas_ta_atr e) df = Inr (Some sg, entry, sl, tp)
        \<and> msg = \<lparr>a_symbol = symbol, a_signal = sg, a_entry = entry,
                  a_stop_loss = sl, a_take_profit = tp\<rparr>
      \<Longrightarrow> scan_symbol e symbol []
            = [SignalFound symbol, if bot_send e msg then Sent msg else TelegramError msg]"
    by (simp add: scan_symbol_def send_telegram_message_def)
  show ?thesis
    apply (intro conjI impI)
          apply (rule a)
         apply (rule b)
        apply (erule c)
       apply (erule d)
      apply (erule f)
     apply (erule g)
    apply (erule h)
    done
qed

theorem scan_isolates_failures_witness:
  "run_scanner demo_env
   = [ScanStart [''AAA/USDT'', ''BBB/USDT'', ''CCC/USDT''],
      AnalyzeError ''AAA/USDT'' NetworkError,
      SignalFound ''CCC/USDT'',
      Sent \<lparr>a_symbol = ''CCC/USDT'', a_signal = LONG, a_entry = Fin 11,
            a_stop_loss = Fin 10, a_take_profit = Fin 13\<rparr>,
      ScanComplete]"
proof -
  note T = scan_isolates_failures [where e = demo_env]
  have fa: "fetch_ohlcv demo_env ''AAA/USDT'' = Inl NetworkError" by (simp add: demo_env_def)
  have fb: "fetch_ohlcv demo_env ''BBB/USDT'' = Inr three_bars \<and> length three_bars < LIMIT"
    by (simp add: demo_env_def three_bars_def LIMIT_def)
  have fc: "fetch_ohlcv demo_env ''CCC/USDT'' = Inr long_series \<and> LIMIT \<le> length long_series
      \<and> calculate_strategy (pandas_ta_atr demo_env) long_series
          = Inr (Some LONG, Fin 11, Fin 10, Fin 13)
      \<and> \<lparr>a_symbol = ''CCC/USDT'', a_signal = LONG, a_entry = Fin 11,
            a_stop_loss = Fin 10, a_take_profit = Fin 13\<rparr>
        = \<lparr>a_symbol = ''CCC/USDT'', a_signal = LONG, a_entry = Fin 11,
            a_stop_loss = Fin 10, a_take_profit = Fin 13\<rparr>"
    using calculate_strategy_long_series
    by (simp add: demo_env_def length_examples LIMIT_def)
  have sa: "scan_symbol demo_env ''AAA/USDT'' [] = [AnalyzeError ''AAA/USDT'' NetworkError]"
    using T [where symbol = "''AAA/USDT''" and err = NetworkError] fa by blast
  have sb: "scan_symbol demo_env ''BBB/USDT'' [] = []"
    using T [where symbol = "''BBB/USDT''" and df = three_bars] fb by blast
  have sc: "scan_symbol demo_env ''CCC/USDT'' []
      = [SignalFound ''CCC/USDT'',
         if bot_send demo_env \<lparr>a_symbol = ''CCC/USDT'', a_signal = LONG, a_entry = Fin 11,
            a_stop_loss = Fin 10, a_take_profit = Fin 13\<rparr>
         then Sent \<lparr>a_symbol = ''CCC/USDT'', a_signal = LONG, a_entry = Fin 11,
            a_stop_loss = Fin 10, a_take_profit = Fin 13\<rparr>
         else TelegramError \<lparr>a_symbol = ''CCC/USDT'', a_signal = LONG, a_entry = Fin 11,
            a_stop_loss = Fin 10, a_take_profit = Fin 13\<rparr>]"
    using T [where symbol = "''CCC/USDT''" and df = long_series and sg = LONG
        and entry = "Fin 11" and sl = "Fin 10" and tp = "Fin 13"
        and msg = "\<lparr>a_symbol = ''CCC/USDT'', a_signal = LONG, a_entry = Fin 11,
            a_stop_loss = Fin 10, a_take_profit = Fin 13\<rparr>"] fc by blast
  have bs: "bot_send demo_env m" for m by (simp add: demo_env_def)
  have "run_scanner demo_env
     = ScanStart (get_top_gainers (fetch_tickers demo_env))
       # concat (map (\<lambda>s. scan_symbol demo_env s []) (get_top_gainers (fetch_tickers demo_env)))
       @ [ScanComplete]"
    using T by blast
  then show ?thesis
    unfolding demo_top_coins by (simp add: sa sb sc bs)
qed

section \<open>Zero change\<close>



section \<open>Ranking by change\<close>

text \<open>
  C7. With the two eligible tickers \<open>AAA/USDT\<close> at 0.0 and \<open>BBB/USDT\<close> at -5.0,
  get_top_gainers returns \<open>BBB/USDT\<close> first: the result is not sorted by descending
  percentage change, because a change of 0.0 is falsy and is replaced by -100.
\<close>

theorem zero_change_sorted_below_loss:
  "get_top_gainers (Inr [(''AAA/USDT'', \<lparr>percentage = Some 0\<rparr>),
                         (''BBB/USDT'', \<lparr>percentage = Some (- 5)\<rparr>)])
   = [''BBB/USDT'', ''AAA/USDT'']"
  by (simp add: get_top_gainers_def valid_symbol_def sort_key_of_def TOP_N_def)

end
